theory Spec2Isabelle
  imports
    Complex_Main
    "HOL-Library.Word"
    "HOL-Library.Char_ord"
    "HOL-Library.List_Lexorder"
    "HOL-Library.Sublist"
    "HOL-Library.AList"
    "HOL-Library.Multiset"
begin

section \<open>dtop: container tree model and statistics aggregation\<close>

text \<open>
  A shallow embedding of \<^verbatim>\<open>model/tree.go\<close>, \<^verbatim>\<open>docker/client.go\<close>, the viewport
  code of the \<^verbatim>\<open>ui\<close> package and \<^verbatim>\<open>main\<close>.  Go strings are byte sequences and are
  modelled as \<^typ>\<open>string\<close>; their comparison \<^verbatim>\<open><\<close> is the byte-wise lexicographic
  order, which is the order of \<^typ>\<open>char list\<close> given by \<^verbatim>\<open>Char_ord\<close> and
  \<^verbatim>\<open>List_Lexorder\<close>.
\<close>

subsection \<open>Project names (\<^verbatim>\<open>ParseProjectName\<close>)\<close>

text \<open>
  \<^verbatim>\<open>strings.Index(s, sep)\<close> for a one-byte separator: the index of its first
  occurrence, or \<open>-1\<close>.  The counter \<open>i\<close> is the number of bytes already passed.
\<close>

fun IndexFrom :: "string \<Rightarrow> char \<Rightarrow> nat \<Rightarrow> int" where
  "IndexFrom [] c i = -1"
| "IndexFrom (x # xs) c i = (if x = c then int i else IndexFrom xs c (Suc i))"

definition Index :: "string \<Rightarrow> char \<Rightarrow> int" where
  "Index s c = IndexFrom s c 0"

definition ParseProjectName :: "string \<Rightarrow> string" where
  "ParseProjectName containerName =
     (let idx = Index containerName (CHR ''_'') in
      if idx \<noteq> -1 then take (nat idx) containerName
      else
        let idx = Index containerName (CHR ''-'') in
        if idx \<noteq> -1 then take (nat idx) containerName
        else containerName)"

subsection \<open>Facts about \<^const>\<open>Index\<close>\<close>

lemma IndexFrom_absent: "c \<notin> set s \<Longrightarrow> IndexFrom s c i = -1"
  by (induction s arbitrary: i) auto

lemma IndexFrom_first:
  "c \<notin> set pre \<Longrightarrow> IndexFrom (pre @ c # post) c i = int (i + length pre)"
  by (induction pre arbitrary: i) auto

lemma Index_absent: "c \<notin> set s \<Longrightarrow> Index s c = -1"
  by (simp add: Index_def IndexFrom_absent)

lemma Index_first: "c \<notin> set pre \<Longrightarrow> Index (pre @ c # post) c = int (length pre)"
  by (simp add: Index_def IndexFrom_first)

lemma ParseProjectName_underscore:
  "CHR ''_'' \<notin> set pre \<Longrightarrow> ParseProjectName (pre @ CHR ''_'' # post) = pre"
  by (simp add: ParseProjectName_def Index_first)

lemma ParseProjectName_dash:
  "CHR ''_'' \<notin> set (pre @ CHR ''-'' # post) \<Longrightarrow> CHR ''-'' \<notin> set pre \<Longrightarrow>
   ParseProjectName (pre @ CHR ''-'' # post) = pre"
  by (simp add: ParseProjectName_def Index_first Index_absent del: set_append)

lemma ParseProjectName_plain:
  "CHR ''_'' \<notin> set name \<Longrightarrow> CHR ''-'' \<notin> set name \<Longrightarrow> ParseProjectName name = name"
  by (simp add: ParseProjectName_def Index_absent)

text \<open>
  C5.  The project name is the part of the container name before its first underscore
  if it has one; otherwise the part before its first dash if it has one; otherwise the
  whole name, byte for byte.  In particular \<open>shopapp_web_1\<close> and \<open>shopapp-db-1\<close> give
  \<open>shopapp\<close>, \<open>standalone\<close> gives \<open>standalone\<close> and \<open>a_b-c\<close> gives \<open>a\<close>.
\<close>

theorem C5_ParseProjectName:
  "(CHR ''_'' \<in> set name \<longrightarrow>
      (\<exists>pre post. name = pre @ CHR ''_'' # post \<and> CHR ''_'' \<notin> set pre \<and>
         ParseProjectName name = pre))
   \<and> (CHR ''_'' \<notin> set name \<and> CHR ''-'' \<in> set name \<longrightarrow>
      (\<exists>pre post. name = pre @ CHR ''-'' # post \<and> CHR ''-'' \<notin> set pre \<and>
         ParseProjectName name = pre))
   \<and> (CHR ''_'' \<notin> set name \<and> CHR ''-'' \<notin> set name \<longrightarrow> ParseProjectName name = name)
   \<and> ParseProjectName ''shopapp_web_1'' = ''shopapp''
   \<and> ParseProjectName ''shopapp-db-1'' = ''shopapp''
   \<and> ParseProjectName ''standalone'' = ''standalone''
   \<and> ParseProjectName ''a_b-c'' = ''a''"
proof (intro conjI impI)
  assume "CHR ''_'' \<in> set name"
  then obtain pre post where "name = pre @ CHR ''_'' # post" "CHR ''_'' \<notin> set pre"
    by (auto dest: split_list_first)
  then show "\<exists>pre post. name = pre @ CHR ''_'' # post \<and> CHR ''_'' \<notin> set pre \<and>
      ParseProjectName name = pre"
    using ParseProjectName_underscore by blast
next
  assume a: "CHR ''_'' \<notin> set name \<and> CHR ''-'' \<in> set name"
  then obtain pre post where p: "name = pre @ CHR ''-'' # post" "CHR ''-'' \<notin> set pre"
    by (auto dest: split_list_first)
  with a have "ParseProjectName (pre @ CHR ''-'' # post) = pre"
    by (intro ParseProjectName_dash) simp_all
  with p show "\<exists>pre post. name = pre @ CHR ''-'' # post \<and> CHR ''-'' \<notin> set pre \<and>
      ParseProjectName name = pre"
    by blast
next
  assume "CHR ''_'' \<notin> set name \<and> CHR ''-'' \<notin> set name"
  then show "ParseProjectName name = name"
    by (simp add: ParseProjectName_plain)
qed (simp_all add: ParseProjectName_def Index_def)

theorem C5_ParseProjectName_witness:
  "CHR ''_'' \<in> set ''a_b-c'' \<and> ParseProjectName ''a_b-c'' = ''a''
   \<and> CHR ''_'' \<notin> set ''x-y'' \<and> CHR ''-'' \<in> set ''x-y''
   \<and> (\<exists>pre post. ''x-y'' = pre @ CHR ''-'' # post \<and> CHR ''-'' \<notin> set pre \<and>
         ParseProjectName ''x-y'' = pre)
   \<and> CHR ''_'' \<notin> set ''web'' \<and> CHR ''-'' \<notin> set ''web'' \<and> ParseProjectName ''web'' = ''web''"
  using C5_ParseProjectName [of "''x-y''"] C5_ParseProjectName [of "''web''"]
  by simp

subsection \<open>The tree\<close>

text \<open>
  \<^verbatim>\<open>docker.ContainerInfo\<close>.  The two \<^verbatim>\<open>float64\<close> fields are reals, the creation time is
  its Unix time in seconds, and the label map is an association list.
\<close>

record ContainerInfo =
  ID :: string
  Name :: string
  Image :: string
  State :: string
  Status :: string
  CPUPerc :: real
  MemPerc :: real
  MemUsage :: string
  NetRx :: "64 word"
  NetTx :: "64 word"
  NetIO :: string
  BlockIO :: string
  CreatedAt :: int
  Labels :: "(string \<times> string) list"

datatype NodeType = NodeTypeProject | NodeTypeContainer

text \<open>
  \<^verbatim>\<open>TreeNode\<close>, with its fields in the order of the struct (\<^verbatim>\<open>Name\<close> is
  \<open>NodeName\<close> here).  The nodes of one tree are reached from its root without sharing,
  so a pointer to a node is the address of the node: the indices of the children to
  follow from the root (\<open>[]\<close> is the root, \<open>[i]\<close> project \<open>i\<close>, \<open>[i, j]\<close> its container
  \<open>j\<close>).  The \<^verbatim>\<open>Parent\<close> field is then the address without its last index.
\<close>

datatype TreeNode = TreeNode (Type: NodeType) (NodeName: string)
  (Container: "ContainerInfo option") (Children: "TreeNode list") (Expanded: bool)

type_synonym ptr = "nat list"

text \<open>\<^verbatim>\<open>Tree\<close>: \<^verbatim>\<open>Flat\<close> is a slice of pointers into the tree under \<^verbatim>\<open>Root\<close>.\<close>

record Tree =
  Root :: TreeNode
  Flat :: "ptr list"
  Selected :: int

lemma size_nth_Children: "i < length ch \<Longrightarrow> size (ch ! i) < Suc (size_list size ch)"
  by (metis less_Suc_eq nth_mem size_list_estimation' order_le_less)

text \<open>
  \<^verbatim>\<open>flattenNode\<close> appends to \<^verbatim>\<open>t.Flat\<close>; the function here returns what one call
  appends, for the node and its address.  The \<^verbatim>\<open>depth\<close> argument of the source is
  passed along and never read.
\<close>

function flattenNode :: "TreeNode \<Rightarrow> ptr \<Rightarrow> ptr list" where
  "flattenNode (TreeNode ty nm ct ch ex) p =
     (if ty \<noteq> NodeTypeProject \<or> nm \<noteq> ''root'' then [p] else []) @
     (if ex then concat (map (\<lambda>i. flattenNode (ch ! i) (p @ [i])) [0..<length ch]) else [])"
  by pat_completeness auto
termination
  by (relation "measure (\<lambda>(n, p). size n)") (auto simp: size_nth_Children)

text \<open>
  Reading the node at an address, and the assignment \<^verbatim>\<open>node.Expanded = b\<close> through a
  pointer: the tree with the flag of the node at that address set.
\<close>

fun nodeAt :: "TreeNode \<Rightarrow> ptr \<Rightarrow> TreeNode option" where
  "nodeAt n [] = Some n"
| "nodeAt n (i # q) = (if i < length (Children n) then nodeAt (Children n ! i) q else None)"

fun setExpanded :: "TreeNode \<Rightarrow> ptr \<Rightarrow> bool \<Rightarrow> TreeNode" where
  "setExpanded (TreeNode ty nm ct ch ex) [] b = TreeNode ty nm ct ch b"
| "setExpanded (TreeNode ty nm ct ch ex) (i # q) b =
     (if i < length ch then TreeNode ty nm ct (ch[i := setExpanded (ch ! i) q b]) ex
      else TreeNode ty nm ct ch ex)"

text \<open>
  The two parts of \<^const>\<open>flattenNode\<close> by name: whether the node itself is appended, and
  what the loop over its children appends.
\<close>

definition shown :: "TreeNode \<Rightarrow> bool" where
  "shown n \<longleftrightarrow> Type n \<noteq> NodeTypeProject \<or> NodeName n \<noteq> ''root''"

definition flattenChildren :: "TreeNode \<Rightarrow> ptr \<Rightarrow> ptr list" where
  "flattenChildren n p =
     concat (map (\<lambda>i. flattenNode (Children n ! i) (p @ [i])) [0..<length (Children n)])"

lemma flattenNode_unfold:
  "flattenNode n p = (if shown n then [p] else []) @ (if Expanded n then flattenChildren n p else [])"
  by (cases n) (simp add: shown_def flattenChildren_def)

lemma flattenNode_prefix: "a \<in> set (flattenNode n p) \<Longrightarrow> prefix p a"
proof (induction n p arbitrary: a rule: flattenNode.induct)
  case (1 ty nm ct ch ex p)
  from "1.prems" consider "a = p"
    | i where "ex" "i < length ch" "a \<in> set (flattenNode (ch ! i) (p @ [i]))"
    by (auto split: if_splits)
  then show ?case
  proof cases
    case 1
    then show ?thesis by simp
  next
    case 2
    then have "prefix (p @ [i]) a"
      using "1.IH" by simp
    then show ?thesis
      using append_prefixD by blast
  qed
qed

lemma flattenChildren_mem:
  "a \<in> set (flattenChildren n p) \<Longrightarrow>
   \<exists>i < length (Children n). a \<in> set (flattenNode (Children n ! i) (p @ [i])) \<and> prefix (p @ [i]) a"
  by (auto simp: flattenChildren_def dest: flattenNode_prefix)

lemma flattenChildren_strict: "a \<in> set (flattenChildren n p) \<Longrightarrow> strict_prefix p a"
  by (auto dest!: flattenChildren_mem simp: prefix_def strict_prefix_def)

lemma upt_split3: "j < n \<Longrightarrow> [0..<n] = [0..<j] @ j # [Suc j..<n]"
  by (metis le0 le_add_diff_inverse less_imp_le_nat upt_add_eq_append upt_conv_Cons)

lemma flattenChildren_split:
  assumes "j < length (Children n)"
  shows "flattenChildren n p =
     concat (map (\<lambda>i. flattenNode (Children n ! i) (p @ [i])) [0..<j]) @
     flattenNode (Children n ! j) (p @ [j]) @
     concat (map (\<lambda>i. flattenNode (Children n ! i) (p @ [i])) [Suc j..<length (Children n)])"
  unfolding flattenChildren_def by (simp add: upt_split3 [OF assms])


lemma Children_setExpanded_Nil [simp]: "Children (setExpanded n [] b) = Children n"
  by (cases n) simp

lemma flattenChildren_setExpanded_Nil [simp]:
  "flattenChildren (setExpanded n [] b) p = flattenChildren n p"
  by (simp add: flattenChildren_def)

lemma flatten_setExpanded:
  assumes "p0 @ q \<in> set (flattenNode n p0)"
  shows "\<exists>A B t. nodeAt n q = Some t \<and> shown t
     \<and> (\<forall>b. nodeAt (setExpanded n q b) q = Some (setExpanded t [] b))
     \<and> (\<forall>b. flattenNode (setExpanded n q b) p0 =
            A @ [p0 @ q] @ (if b then flattenChildren t (p0 @ q) else []) @ B)
     \<and> (\<forall>a \<in> set A \<union> set B. \<not> prefix (p0 @ q) a)"
  using assms
proof (induction q arbitrary: n p0)
  case Nil
  obtain ty nm ct ch ex where n: "n = TreeNode ty nm ct ch ex" by (cases n)
  have "p0 \<notin> set (flattenChildren n p0)"
    using flattenChildren_strict by blast
  with Nil have sh: "shown n"
    by (auto simp: flattenNode_unfold split: if_splits)
  have "\<forall>b. flattenNode (setExpanded n [] b) p0 =
      [] @ [p0 @ []] @ (if b then flattenChildren n (p0 @ []) else []) @ []"
    using sh by (simp add: n shown_def flattenChildren_def)
  moreover have "\<forall>b. nodeAt (setExpanded n [] b) [] = Some (setExpanded n [] b)"
    by simp
  ultimately show ?case
    using sh by (intro exI [of _ "[]"] exI [of _ n]) simp
next
  case (Cons j q')
  obtain ty nm ct ch ex where n: "n = TreeNode ty nm ct ch ex" by (cases n)
  let ?p = "p0 @ j # q'"
  let ?g = "\<lambda>i. flattenNode (ch ! i) (p0 @ [i])"
  have "?p \<noteq> p0" by simp
  with Cons.prems have ex: "ex" and mem: "?p \<in> set (flattenChildren n p0)"
    by (auto simp: flattenNode_unfold n split: if_splits)
  from flattenChildren_mem [OF mem] obtain i where
    i: "i < length ch" "?p \<in> set (?g i)" "prefix (p0 @ [i]) ?p"
    by (auto simp: n)
  then have ij: "i = j" by simp
  with i have j: "j < length ch" and memj: "(p0 @ [j]) @ q' \<in> set (flattenNode (ch ! j) (p0 @ [j]))"
    by simp_all
  from Cons.IH [OF memj] obtain A B t where H:
    "nodeAt (ch ! j) q' = Some t \<and> shown t
     \<and> (\<forall>b. nodeAt (setExpanded (ch ! j) q' b) q' = Some (setExpanded t [] b))
     \<and> (\<forall>b. flattenNode (setExpanded (ch ! j) q' b) (p0 @ [j]) =
            A @ [(p0 @ [j]) @ q'] @ (if b then flattenChildren t ((p0 @ [j]) @ q') else []) @ B)
     \<and> (\<forall>a \<in> set A \<union> set B. \<not> prefix ((p0 @ [j]) @ q') a)"
    by blast
  have t: "nodeAt (ch ! j) q' = Some t" "shown t"
    and nd: "\<And>b. nodeAt (setExpanded (ch ! j) q' b) q' = Some (setExpanded t [] b)"
    using H by blast+
  have fl: "flattenNode (setExpanded (ch ! j) q' b) (p0 @ [j]) =
            A @ [?p] @ (if b then flattenChildren t ?p else []) @ B" for b
    using H by simp
  have np: "\<not> prefix ?p a" if "a \<in> set A \<union> set B" for a
    using H that by simp
  let ?own = "if shown n then [p0] else []"
  let ?L = "concat (map ?g [0..<j])"
  let ?R = "concat (map ?g [Suc j..<length ch])"
  have other: "\<And>a i. i < length ch \<Longrightarrow> i \<noteq> j \<Longrightarrow> a \<in> set (?g i) \<Longrightarrow> \<not> prefix ?p a"
  proof
    fix a i assume "i < length ch" "i \<noteq> j" "a \<in> set (?g i)" "prefix ?p a"
    then have "prefix (p0 @ [i]) a" "prefix (p0 @ [j]) a"
      using flattenNode_prefix apply blast
      using \<open>prefix ?p a\<close> by (auto simp: prefix_def)
    then show False
      using \<open>i \<noteq> j\<close> by (auto simp: prefix_def append_eq_append_conv2 Cons_eq_append_conv)
  qed
  have flat: "flattenNode (setExpanded n (j # q') b) p0 =
      (?own @ ?L @ A) @ [?p] @ (if b then flattenChildren t ?p else []) @ (B @ ?R)" for b
  proof -
    let ?n' = "TreeNode ty nm ct (ch[j := setExpanded (ch ! j) q' b]) ex"
    have "flattenNode ?n' p0 = ?own @ flattenChildren ?n' p0"
      using ex by (simp add: flattenNode_unfold shown_def n)
    also have "flattenChildren ?n' p0 = ?L @ flattenNode (setExpanded (ch ! j) q' b) (p0 @ [j]) @ ?R"
    proof -
      let ?ch' = "ch[j := setExpanded (ch ! j) q' b]"
      have L: "map (\<lambda>i. flattenNode (?ch' ! i) (p0 @ [i])) [0..<j] = map ?g [0..<j]"
        by (rule map_cong) auto
      have R: "map (\<lambda>i. flattenNode (?ch' ! i) (p0 @ [i])) [Suc j..<length ch] =
          map ?g [Suc j..<length ch]"
        by (rule map_cong) auto
      show ?thesis
        using j by (simp add: flattenChildren_split [of j] L R)
    qed
    finally show ?thesis
      using j by (simp add: n fl)
  qed
  have "\<not> prefix ?p a" if "a \<in> set (?own @ ?L @ A) \<union> set (B @ ?R)" for a
  proof -
    have inL: "\<exists>i<length ch. i \<noteq> j \<and> a \<in> set (?g i)" if "a \<in> set ?L"
    proof -
      from that obtain x where x: "x < j" "a \<in> set (?g x)" by auto
      with j have "x < length ch" "x \<noteq> j" by simp_all
      with x show ?thesis by blast
    qed
    have inR: "\<exists>i<length ch. i \<noteq> j \<and> a \<in> set (?g i)" if "a \<in> set ?R"
    proof -
      from that obtain x where x: "Suc j \<le> x" "x < length ch" "a \<in> set (?g x)" by auto
      then have "x \<noteq> j" by simp
      with x show ?thesis by blast
    qed
    from that have "a \<in> set ?own \<or> a \<in> set ?L \<or> a \<in> set A \<or> a \<in> set B \<or> a \<in> set ?R"
      by (simp del: set_concat)
    then have "a = p0 \<or> a \<in> set A \<union> set B
        \<or> (\<exists>i<length ch. i \<noteq> j \<and> a \<in> set (?g i))"
      using inL inR by (auto split: if_splits)
    then consider "a = p0" | "a \<in> set A \<union> set B"
      | i where "i < length ch" "i \<noteq> j" "a \<in> set (?g i)"
      by blast
    then show ?thesis
    proof cases
      case 1
      then show ?thesis by (simp add: prefix_def)
    next
      case 2
      then show ?thesis by (rule np)
    next
      case 3
      then show ?thesis by (rule other)
    qed
  qed
  then have "\<forall>a \<in> set (?own @ ?L @ A) \<union> set (B @ ?R). \<not> prefix ?p a"
    by blast
  moreover have "nodeAt n (j # q') = Some t"
    using j t by (simp add: n)
  moreover have "\<forall>b. nodeAt (setExpanded n (j # q') b) (j # q') = Some (setExpanded t [] b)"
    using j nd by (simp add: n)
  ultimately show ?case
    using flat t(2) by (intro exI [of _ "?own @ ?L @ A"] exI [of _ "B @ ?R"] exI [of _ t]) blast
qed

subsection \<open>Navigation and expansion\<close>

text \<open>
  \<^verbatim>\<open>UpdateFlatView\<close>, \<^verbatim>\<open>GetSelected\<close> (\<open>None\<close> is nil), \<^verbatim>\<open>MoveUp\<close>,
  \<^verbatim>\<open>MoveDown\<close> and \<^verbatim>\<open>ToggleExpanded\<close>.  A pointer of the flat view always points to a
  node in Go; an address that names no node of the tree is treated as nil.
\<close>

definition UpdateFlatView :: "Tree \<Rightarrow> Tree" where
  "UpdateFlatView t = t\<lparr>Flat := flattenNode (Root t) []\<rparr>"

definition GetSelected :: "Tree \<Rightarrow> ptr option" where
  "GetSelected t =
     (if Selected t < 0 \<or> Selected t \<ge> int (length (Flat t)) then None
      else Some (Flat t ! nat (Selected t)))"

definition MoveUp :: "Tree \<Rightarrow> Tree" where
  "MoveUp t = (if Selected t > 0 then t\<lparr>Selected := Selected t - 1\<rparr> else t)"

definition MoveDown :: "Tree \<Rightarrow> Tree" where
  "MoveDown t =
     (if Selected t < int (length (Flat t)) - 1 then t\<lparr>Selected := Selected t + 1\<rparr> else t)"

definition ToggleExpanded :: "Tree \<Rightarrow> Tree" where
  "ToggleExpanded t =
     (case GetSelected t of
        None \<Rightarrow> t
      | Some p \<Rightarrow>
          (case nodeAt (Root t) p of
             None \<Rightarrow> t
           | Some node \<Rightarrow>
               if Type node = NodeTypeProject
               then UpdateFlatView (t\<lparr>Root := setExpanded (Root t) p (\<not> Expanded node)\<rparr>)
               else t))"

lemma setExpanded_same: "nodeAt n q = Some t \<Longrightarrow> setExpanded n q (Expanded t) = n"
proof (induction q arbitrary: n)
  case Nil
  then show ?case by (cases n) auto
next
  case (Cons i q)
  then show ?case by (cases n) (auto split: if_splits)
qed

lemma setExpanded_twice: "setExpanded (setExpanded n q b) q b' = setExpanded n q b'"
proof (induction q arbitrary: n)
  case Nil
  then show ?case by (cases n) auto
next
  case (Cons i q)
  then show ?case by (cases n) auto
qed

lemma Type_setExpanded_Nil [simp]: "Type (setExpanded n [] b) = Type n"
  by (cases n) simp

lemma Expanded_setExpanded_Nil [simp]: "Expanded (setExpanded n [] b) = b"
  by (cases n) simp

lemma nth_unique_middle:
  assumes "xs = A @ [p] @ C" "p \<notin> set A" "p \<notin> set C" "i < length xs" "xs ! i = p"
  shows "i = length A"
proof (rule ccontr)
  assume ne: "i \<noteq> length A"
  show False
  proof (cases "i < length A")
    case True
    then have "xs ! i \<in> set A" using assms(1) by (simp add: nth_append)
    with assms show False by simp
  next
    case False
    with ne have gt: "length A < i" by simp
    then have "xs ! i = C ! (i - Suc (length A))"
      using assms(1) by (simp add: nth_append nth_Cons')
    moreover have "i - Suc (length A) < length C"
      using gt assms(1,4) by simp
    ultimately have "xs ! i \<in> set C" by simp
    with assms show False by simp
  qed
qed

lemma flatten_setExpanded_root:
  assumes "p \<in> set (flattenNode n [])"
  shows "\<exists>A B t. nodeAt n p = Some t \<and> shown t
     \<and> (\<forall>b. nodeAt (setExpanded n p b) p = Some (setExpanded t [] b))
     \<and> (\<forall>b. flattenNode (setExpanded n p b) [] =
            A @ [p] @ (if b then flattenChildren t p else []) @ B)
     \<and> (\<forall>a \<in> set A \<union> set B. \<not> prefix p a)"
  using flatten_setExpanded [of "[]" p n] assms by (simp only: append_Nil)

text \<open>The shape of the flat view around the selected project, before and after a toggle.\<close>

lemma toggle_shape:
  assumes cur: "Flat t = flattenNode (Root t) []"
    and sel: "GetSelected t = Some p"
  shows "\<exists>A B node. nodeAt (Root t) p = Some node \<and> shown node
      \<and> Selected t = int (length A)
      \<and> (\<forall>a \<in> set A \<union> set B. \<not> prefix p a)
      \<and> (\<forall>b. nodeAt (setExpanded (Root t) p b) p = Some (setExpanded node [] b))
      \<and> (\<forall>b. flattenNode (setExpanded (Root t) p b) [] =
              A @ [p] @ (if b then flattenChildren node p else []) @ B)"
proof -
  from sel have rng: "0 \<le> Selected t" "nat (Selected t) < length (Flat t)"
    and p: "Flat t ! nat (Selected t) = p"
    by (auto simp: GetSelected_def split: if_splits)
  then have "p \<in> set (flattenNode (Root t) [])"
    using cur by (metis nth_mem)
  from flatten_setExpanded_root [OF this] obtain A B node where H0:
    "nodeAt (Root t) p = Some node \<and> shown node
     \<and> (\<forall>b. nodeAt (setExpanded (Root t) p b) p = Some (setExpanded node [] b))
     \<and> (\<forall>b. flattenNode (setExpanded (Root t) p b) [] =
            A @ [p] @ (if b then flattenChildren node p else []) @ B)
     \<and> (\<forall>a \<in> set A \<union> set B. \<not> prefix p a)"
    by blast
  then have H: "nodeAt (Root t) p = Some node" "shown node"
    "\<And>b. nodeAt (setExpanded (Root t) p b) p = Some (setExpanded node [] b)"
    "\<And>b. flattenNode (setExpanded (Root t) p b) [] =
        A @ [p] @ (if b then flattenChildren node p else []) @ B"
    "\<And>a. a \<in> set A \<union> set B \<Longrightarrow> \<not> prefix p a"
    by blast+
  let ?C = "(if Expanded node then flattenChildren node p else []) @ B"
  have "Flat t = A @ [p] @ ?C"
    using H(4) [of "Expanded node"] setExpanded_same [OF H(1)] cur by simp
  moreover have "p \<notin> set A" "p \<notin> set ?C"
    using H(5) flattenChildren_strict [of p node p] by (auto split: if_splits)
  ultimately have "nat (Selected t) = length A"
    using rng(2) p by (rule nth_unique_middle)
  with rng(1) have "Selected t = int (length A)" by simp
  with H show ?thesis by blast
qed


lemma ToggleExpanded_project:
  assumes cur: "Flat t = flattenNode (Root t) []"
    and sel: "GetSelected t = Some p"
    and node: "nodeAt (Root t) p = Some node"
    and ty: "Type node = NodeTypeProject"
  shows "\<exists>A B. (\<forall>a \<in> set A \<union> set B. \<not> prefix p a)
      \<and> Flat t = A @ [p] @ (if Expanded node then flattenChildren node p else []) @ B
      \<and> Flat (ToggleExpanded t) =
            A @ [p] @ (if Expanded node then [] else flattenChildren node p) @ B
      \<and> ToggleExpanded (ToggleExpanded t) = t"
proof -
  from toggle_shape [OF cur sel] node obtain A B where H:
    "shown node" "Selected t = int (length A)"
    "\<And>a. a \<in> set A \<union> set B \<Longrightarrow> \<not> prefix p a"
    "\<And>b. nodeAt (setExpanded (Root t) p b) p = Some (setExpanded node [] b)"
    "\<And>b. flattenNode (setExpanded (Root t) p b) [] =
        A @ [p] @ (if b then flattenChildren node p else []) @ B"
    by auto
  let ?K = "flattenChildren node p"
  let ?t' = "ToggleExpanded t"
  have flat: "Flat t = A @ [p] @ (if Expanded node then ?K else []) @ B"
    using H(5) [of "Expanded node"] setExpanded_same [OF node] cur by simp
  have t': "?t' = t\<lparr>Root := setExpanded (Root t) p (\<not> Expanded node),
      Flat := A @ [p] @ (if Expanded node then [] else ?K) @ B\<rparr>"
    using sel node ty H(5) [of "\<not> Expanded node"]
    by (simp add: ToggleExpanded_def UpdateFlatView_def)
  have sel': "GetSelected ?t' = Some p"
    using H(2) by (simp add: t' GetSelected_def nth_append)
  have node': "nodeAt (Root ?t') p = Some (setExpanded node [] (\<not> Expanded node))"
    using H(4) by (simp add: t')
  have "ToggleExpanded ?t' =
      UpdateFlatView (?t'\<lparr>Root := setExpanded (Root ?t') p (Expanded node)\<rparr>)"
    using sel' node' ty by (simp add: ToggleExpanded_def [of ?t'])
  also have "setExpanded (Root ?t') p (Expanded node) = Root t"
    by (simp add: t' setExpanded_twice setExpanded_same [OF node])
  also have "UpdateFlatView (?t'\<lparr>Root := Root t\<rparr>) = t"
    using cur by (simp add: t' UpdateFlatView_def)
  finally have "ToggleExpanded ?t' = t" .
  with flat t' H(3) show ?thesis
    by (intro exI [of _ A] exI [of _ B]) simp
qed

lemma ToggleExpanded_noop:
  "GetSelected t = None \<or> (\<exists>p. GetSelected t = Some p \<and>
     (nodeAt (Root t) p = None \<or> (\<exists>n. nodeAt (Root t) p = Some n \<and> Type n \<noteq> NodeTypeProject)))
   \<Longrightarrow> ToggleExpanded t = t"
  by (auto simp: ToggleExpanded_def)

lemma ToggleExpanded_twice:
  assumes cur: "Flat t = flattenNode (Root t) []"
  shows "ToggleExpanded (ToggleExpanded t) = t"
proof (cases "\<exists>p node. GetSelected t = Some p \<and> nodeAt (Root t) p = Some node
    \<and> Type node = NodeTypeProject")
  case True
  then show ?thesis
    using ToggleExpanded_project [OF cur] by blast
next
  case False
  then have "ToggleExpanded t = t"
    by (intro ToggleExpanded_noop) (metis not_Some_eq)
  then show ?thesis by simp
qed

lemma filter_descendants:
  assumes "\<forall>a \<in> set A \<union> set B. \<not> prefix p a" "\<forall>k \<in> set K. strict_prefix p k"
  shows "filter (\<lambda>q. \<not> strict_prefix p q) (A @ [p] @ K @ B) = A @ [p] @ B"
proof -
  have "filter (\<lambda>q. \<not> strict_prefix p q) A = A" "filter (\<lambda>q. \<not> strict_prefix p q) B = B"
    using assms(1) by (auto intro!: filter_True simp: strict_prefix_def)
  moreover have "filter (\<lambda>q. \<not> strict_prefix p q) K = []"
    using assms(2) by (auto intro!: filter_False)
  ultimately show ?thesis by simp
qed

text \<open>
  C8.  Let the flat view be current.  If the selected node is an expanded project at
  address \<open>p\<close>, toggling it removes from the flat view exactly the entries below \<open>p\<close>
  (the addresses that properly extend \<open>p\<close>, all of which were in the view) and keeps
  every other entry in its place and order.  Toggling twice gives back the same tree,
  flat view and selection, whatever is selected.
\<close>

theorem C8_toggle:
  assumes cur: "Flat t = flattenNode (Root t) []"
  shows "ToggleExpanded (ToggleExpanded t) = t
    \<and> (\<forall>p node. GetSelected t = Some p \<and> nodeAt (Root t) p = Some node
          \<and> Type node = NodeTypeProject \<and> Expanded node \<longrightarrow>
        Flat (ToggleExpanded t) = filter (\<lambda>q. \<not> strict_prefix p q) (Flat t)
        \<and> length (Flat t) = length (Flat (ToggleExpanded t)) + length (flattenChildren node p)
        \<and> (\<forall>q \<in> set (flattenChildren node p). q \<in> set (Flat t) \<and> strict_prefix p q)
        \<and> Flat (ToggleExpanded (ToggleExpanded t)) = Flat t)"
proof (intro conjI allI impI)
  show "ToggleExpanded (ToggleExpanded t) = t"
    by (rule ToggleExpanded_twice [OF cur])
next
  fix p node
  assume a: "GetSelected t = Some p \<and> nodeAt (Root t) p = Some node
          \<and> Type node = NodeTypeProject \<and> Expanded node"
  then obtain A B where H: "\<forall>a \<in> set A \<union> set B. \<not> prefix p a"
      "Flat t = A @ [p] @ flattenChildren node p @ B"
      "Flat (ToggleExpanded t) = A @ [p] @ B"
    using ToggleExpanded_project [OF cur, of p node] by auto
  have K: "\<forall>k \<in> set (flattenChildren node p). strict_prefix p k"
    using flattenChildren_strict by blast
  show "Flat (ToggleExpanded t) = filter (\<lambda>q. \<not> strict_prefix p q) (Flat t)"
    using filter_descendants [OF H(1) K] H(2,3) by simp
  show "length (Flat t) = length (Flat (ToggleExpanded t)) + length (flattenChildren node p)"
    using H(2,3) by simp
  show "\<forall>q \<in> set (flattenChildren node p). q \<in> set (Flat t) \<and> strict_prefix p q"
    using K H(2) by simp
  show "Flat (ToggleExpanded (ToggleExpanded t)) = Flat t"
    by (simp add: ToggleExpanded_twice [OF cur])
qed


subsection \<open>Building the tree\<close>

text \<open>
  \<^verbatim>\<open>projects[projectName]\<close> on the Go map: the stored slice, or the nil slice for a
  missing key.  The map is an association list with distinct keys.
\<close>

definition lookupProject :: "(string \<times> ContainerInfo list) list \<Rightarrow> string \<Rightarrow> ContainerInfo list" where
  "lookupProject projects projectName =
     (case map_of projects projectName of None \<Rightarrow> [] | Some cs \<Rightarrow> cs)"

definition addToProject ::
  "(string \<times> ContainerInfo list) list \<Rightarrow> ContainerInfo \<Rightarrow> (string \<times> ContainerInfo list) list" where
  "addToProject projects c =
     (let projectName = ParseProjectName (Name c) in
      AList.update projectName (lookupProject projects projectName @ [c]) projects)"

text \<open>
  The nodes \<^verbatim>\<open>BuildTree\<close> makes.  Fields it does not set have their zero values.
  \<^verbatim>\<open>sort.Slice\<close> with the comparison of names is \<^const>\<open>sort_key\<close> on \<^const>\<open>Name\<close>; the Go
  sort is not stable, which shows only between containers of the same name.
  \<^verbatim>\<open>sort.Strings\<close> on the keys of the map is \<^const>\<open>sort\<close>: the keys are distinct, so the
  order in which the map is iterated does not matter.
\<close>

definition containerNode :: "ContainerInfo \<Rightarrow> TreeNode" where
  "containerNode c = TreeNode NodeTypeContainer (Name c) (Some c) [] False"

definition projectNode :: "(string \<times> ContainerInfo list) list \<Rightarrow> string \<Rightarrow> TreeNode" where
  "projectNode projects projectName =
     (let containers = sort_key Name (lookupProject projects projectName)
      in TreeNode NodeTypeProject projectName None (map containerNode containers) True)"

definition BuildTree :: "ContainerInfo list \<Rightarrow> Tree" where
  "BuildTree containers =
     (let projects = foldl addToProject [] containers;
          projectNames = sort (map fst projects);
          root = TreeNode NodeTypeProject ''root'' None
                   (map (projectNode projects) projectNames) True
      in UpdateFlatView \<lparr>Root = root, Flat = [], Selected = 0\<rparr>)"

text \<open>A running container of a given name, for the examples.\<close>

definition named :: "string \<Rightarrow> ContainerInfo" where
  "named nm = \<lparr>ID = ''0123456789ab'', Name = nm, Image = ''img'', State = ''running'',
     Status = ''Up'', CPUPerc = 0, MemPerc = 0, MemUsage = ''N/A'', NetRx = 0, NetTx = 0,
     NetIO = [], BlockIO = [], CreatedAt = 0, Labels = []\<rparr>"

lemma lookupProject_Nil: "lookupProject [] k = []"
  by (simp add: lookupProject_def)

lemma lookupProject_addToProject:
  "lookupProject (addToProject al c) k =
     lookupProject al k @ (if ParseProjectName (Name c) = k then [c] else [])"
  by (simp add: lookupProject_def addToProject_def Let_def update_conv')

lemma lookupProject_foldl:
  "lookupProject (foldl addToProject al cs) k =
     lookupProject al k @ filter (\<lambda>c. ParseProjectName (Name c) = k) cs"
  by (induction cs arbitrary: al) (simp_all add: lookupProject_addToProject)

lemma keys_addToProject:
  "fst ` set (addToProject al c) = insert (ParseProjectName (Name c)) (fst ` set al)"
  by (simp add: addToProject_def Let_def dom_update)

lemma keys_foldl:
  "fst ` set (foldl addToProject al cs) =
     fst ` set al \<union> (\<lambda>c. ParseProjectName (Name c)) ` set cs"
proof (induction cs arbitrary: al)
  case Nil
  then show ?case by simp
next
  case (Cons c cs)
  show ?case
    unfolding foldl_Cons Cons.IH keys_addToProject by auto
qed

lemma distinct_addToProject:
  "distinct (map fst al) \<Longrightarrow> distinct (map fst (addToProject al c))"
  by (simp add: addToProject_def Let_def distinct_update)

lemma distinct_foldl:
  "distinct (map fst al) \<Longrightarrow> distinct (map fst (foldl addToProject al cs))"
  by (induction cs arbitrary: al) (simp_all add: distinct_addToProject)

text \<open>The sorted project names of \<^verbatim>\<open>BuildTree\<close>, by name.\<close>

definition projectNamesOf :: "ContainerInfo list \<Rightarrow> string list" where
  "projectNamesOf cs = sort (map fst (foldl addToProject [] cs))"

lemma projectNamesOf_eq:
  "projectNamesOf cs = sort (remdups (map (\<lambda>c. ParseProjectName (Name c)) cs))"
proof (rule sorted_distinct_set_unique)
  show "distinct (projectNamesOf cs)"
    using distinct_foldl [of "[]" cs] by (simp add: projectNamesOf_def)
  show "set (projectNamesOf cs) = set (sort (remdups (map (\<lambda>c. ParseProjectName (Name c)) cs)))"
    using keys_foldl [of "[]" cs] by (simp add: projectNamesOf_def)
qed (simp_all add: projectNamesOf_def)

lemma Root_BuildTree:
  "Root (BuildTree cs) = TreeNode NodeTypeProject ''root'' None
     (map (projectNode (foldl addToProject [] cs)) (projectNamesOf cs)) True"
  by (simp add: BuildTree_def Let_def UpdateFlatView_def projectNamesOf_def)

lemma NodeName_projectNode [simp]: "NodeName (projectNode al k) = k"
  by (simp add: projectNode_def)

lemma map_sort_key: "map f (sort_key f xs) = sort (map f xs)"
  by (rule properties_for_sort [symmetric]) simp_all

lemma Children_projectNode:
  "map NodeName (Children (projectNode (foldl addToProject [] cs) k)) =
     sort (map Name (filter (\<lambda>c. ParseProjectName (Name c) = k) cs))"
proof -
  have "map NodeName (map containerNode xs) = map Name xs" for xs
    by (simp add: containerNode_def comp_def)
  then show ?thesis
    by (simp add: projectNode_def lookupProject_foldl lookupProject_Nil map_sort_key
        del: map_map)
qed


lemma Children_Root_BuildTree:
  "map NodeName (Children (Root (BuildTree cs))) = projectNamesOf cs"
  by (simp add: Root_BuildTree comp_def)

lemma project_of_BuildTree:
  assumes "p \<in> set (Children (Root (BuildTree cs)))"
  shows "map NodeName (Children p) =
     sort (map Name (filter (\<lambda>c. ParseProjectName (Name c) = NodeName p) cs))"
proof -
  from assms obtain k where "p = projectNode (foldl addToProject [] cs) k"
    by (auto simp: Root_BuildTree)
  then show ?thesis
    by (simp add: Children_projectNode)
qed

lemma project_names_of_BuildTree:
  "map (\<lambda>p. map NodeName (Children p)) (Children (Root (BuildTree cs))) =
   map (\<lambda>k. sort (filter (\<lambda>n. ParseProjectName n = k) (map Name cs))) (projectNamesOf cs)"
  by (simp add: Root_BuildTree comp_def Children_projectNode filter_map)

text \<open>
  C4.  In the tree built from any container list, the project nodes under the root are
  in ascending byte-wise order of their names (they are the distinct derived project
  names, sorted), and the container nodes under each project are in ascending byte-wise
  order of their names (they are the names of the containers of that project, sorted).
  For containers named \<open>shopapp_web_1\<close>, \<open>shopapp_db_1\<close>, \<open>standalone\<close> the projects
  are \<open>shopapp\<close>, \<open>standalone\<close> and the children of \<open>shopapp\<close> are \<open>shopapp_db_1\<close>,
  \<open>shopapp_web_1\<close>.
\<close>

theorem C4_BuildTree_sorted:
  "sorted (map NodeName (Children (Root (BuildTree cs))))
   \<and> map NodeName (Children (Root (BuildTree cs))) =
       sort (remdups (map (\<lambda>c. ParseProjectName (Name c)) cs))
   \<and> (\<forall>p \<in> set (Children (Root (BuildTree cs))).
         sorted (map NodeName (Children p))
         \<and> map NodeName (Children p) =
             sort (map Name (filter (\<lambda>c. ParseProjectName (Name c) = NodeName p) cs)))
   \<and> (map Name cs = [''shopapp_web_1'', ''shopapp_db_1'', ''standalone''] \<longrightarrow>
         map NodeName (Children (Root (BuildTree cs))) = [''shopapp'', ''standalone'']
         \<and> map (\<lambda>p. map NodeName (Children p)) (Children (Root (BuildTree cs))) =
             [[''shopapp_db_1'', ''shopapp_web_1''], [''standalone'']])"
proof (intro conjI ballI impI)
  show "map NodeName (Children (Root (BuildTree cs))) =
       sort (remdups (map (\<lambda>c. ParseProjectName (Name c)) cs))"
    by (simp only: Children_Root_BuildTree projectNamesOf_eq)
  then show "sorted (map NodeName (Children (Root (BuildTree cs))))"
    by simp
next
  fix p assume p: "p \<in> set (Children (Root (BuildTree cs)))"
  show eq: "map NodeName (Children p) =
      sort (map Name (filter (\<lambda>c. ParseProjectName (Name c) = NodeName p) cs))"
    by (rule project_of_BuildTree [OF p])
  show "sorted (map NodeName (Children p))"
    unfolding eq by simp
next
  assume names: "map Name cs = [''shopapp_web_1'', ''shopapp_db_1'', ''standalone'']"
  have "map (\<lambda>c. ParseProjectName (Name c)) cs = map ParseProjectName (map Name cs)"
    by simp
  then have pn: "projectNamesOf cs = [''shopapp'', ''standalone'']"
    unfolding projectNamesOf_eq names by (simp add: ParseProjectName_def Index_def)
  show "map NodeName (Children (Root (BuildTree cs))) = [''shopapp'', ''standalone'']"
    by (simp only: Children_Root_BuildTree pn)
  show "map (\<lambda>p. map NodeName (Children p)) (Children (Root (BuildTree cs))) =
      [[''shopapp_db_1'', ''shopapp_web_1''], [''standalone'']]"
    unfolding project_names_of_BuildTree pn names
    by (simp add: ParseProjectName_def Index_def)
qed


text \<open>The statement of C4 at the example list, through its first project.\<close>

theorem C4_BuildTree_sorted_witness:
  "map Name (map named [''shopapp_web_1'', ''shopapp_db_1'', ''standalone'']) =
      [''shopapp_web_1'', ''shopapp_db_1'', ''standalone'']
   \<and> map NodeName (Children (Root (BuildTree
        (map named [''shopapp_web_1'', ''shopapp_db_1'', ''standalone''])))) =
      [''shopapp'', ''standalone'']
   \<and> hd (Children (Root (BuildTree
        (map named [''shopapp_web_1'', ''shopapp_db_1'', ''standalone''])))) \<in>
      set (Children (Root (BuildTree
        (map named [''shopapp_web_1'', ''shopapp_db_1'', ''standalone'']))))
   \<and> sorted (map NodeName (Children (hd (Children (Root (BuildTree
        (map named [''shopapp_web_1'', ''shopapp_db_1'', ''standalone''])))))))"
proof -
  let ?cs = "map named [''shopapp_web_1'', ''shopapp_db_1'', ''standalone'']"
  have names: "map Name ?cs = [''shopapp_web_1'', ''shopapp_db_1'', ''standalone'']"
    by (simp add: named_def)
  with C4_BuildTree_sorted [of ?cs]
  have ch: "map NodeName (Children (Root (BuildTree ?cs))) = [''shopapp'', ''standalone'']"
    by blast
  then have "Children (Root (BuildTree ?cs)) \<noteq> []"
    by auto
  then have hd: "hd (Children (Root (BuildTree ?cs))) \<in> set (Children (Root (BuildTree ?cs)))"
    by simp
  with C4_BuildTree_sorted [of ?cs]
  have "sorted (map NodeName (Children (hd (Children (Root (BuildTree ?cs))))))"
    by blast
  with names ch hd show ?thesis by blast
qed

text \<open>An example tree: two projects, three containers, everything expanded.\<close>

definition demoTree :: Tree where
  "demoTree = BuildTree (map named [''shop_web'', ''shop_db'', ''solo''])"

lemma demoTree_eval:
  "demoTree = \<lparr>Root = TreeNode NodeTypeProject ''root'' None
       [TreeNode NodeTypeProject ''shop'' None
          [containerNode (named ''shop_db''), containerNode (named ''shop_web'')] True,
        TreeNode NodeTypeProject ''solo'' None [containerNode (named ''solo'')] True] True,
     Flat = [[0], [0, 0], [0, 1], [1], [1, 0]], Selected = 0\<rparr>"
  by code_simp


text \<open>
  C8 on the tree of \<open>shop_web\<close>, \<open>shop_db\<close>, \<open>solo\<close> with the project \<open>shop\<close> selected:
  collapsing it removes its two containers, toggling again restores the tree.
\<close>

theorem C8_toggle_witness:
  "Flat demoTree = flattenNode (Root demoTree) []
   \<and> GetSelected demoTree = Some [0]
   \<and> Flat demoTree = [[0], [0, 0], [0, 1], [1], [1, 0]]
   \<and> Flat (ToggleExpanded demoTree) = [[0], [1], [1, 0]]
   \<and> ToggleExpanded (ToggleExpanded demoTree) = demoTree"
proof -
  let ?node = "TreeNode NodeTypeProject ''shop'' None
          [containerNode (named ''shop_db''), containerNode (named ''shop_web'')] True"
  have cur: "Flat demoTree = flattenNode (Root demoTree) []"
    by (simp add: demoTree_eval containerNode_def)
  have sel: "GetSelected demoTree = Some [0] \<and> nodeAt (Root demoTree) [0] = Some ?node
      \<and> Type ?node = NodeTypeProject \<and> Expanded ?node"
    by (simp add: demoTree_eval GetSelected_def)
  have flat: "Flat demoTree = [[0], [0, 0], [0, 1], [1], [1, 0]]"
    by (simp add: demoTree_eval)
  from C8_toggle [OF cur] sel
  have "ToggleExpanded (ToggleExpanded demoTree) = demoTree"
    and "Flat (ToggleExpanded demoTree) = filter (\<lambda>q. \<not> strict_prefix [0] q) (Flat demoTree)"
    by blast+
  then show ?thesis
    using cur sel by (simp add: flat)
qed

text \<open>
  The length the specification gives for the flat view: the number of projects plus the
  number of containers of expanded projects.
\<close>

definition spec_flat_length :: "TreeNode \<Rightarrow> nat" where
  "spec_flat_length r =
     length (Children r) +
     sum_list (map (\<lambda>p. if Expanded p then length (Children p) else 0) (Children r))"

text \<open>
  C1 says that the flat view never holds a node named \<open>root\<close> and that its length is
  the number of projects plus the number of containers of expanded projects.  The code
  recognises the synthetic root by its type and name, so a project whose derived name is
  \<open>root\<close> is left out of the flat view as well: for the single container \<open>root_web_1\<close>
  the tree has one (expanded) project with one container, the count of C1 is 2, and the
  flat view has the container only.
\<close>

theorem C1_project_named_root_hidden:
  "Root (BuildTree [named ''root_web_1'']) =
     TreeNode NodeTypeProject ''root'' None
       [TreeNode NodeTypeProject ''root'' None [containerNode (named ''root_web_1'')] True] True
   \<and> Flat (BuildTree [named ''root_web_1'']) = [[0, 0]]
   \<and> length (Flat (BuildTree [named ''root_web_1''])) = 1
   \<and> spec_flat_length (Root (BuildTree [named ''root_web_1''])) = 2"
  by code_simp

subsection \<open>The flat view of a tree without a project named \<open>root\<close>\<close>

text \<open>
  The shape of the trees that \<^verbatim>\<open>BuildTree\<close> makes and \<^verbatim>\<open>ToggleExpanded\<close> keeps: an
  expanded root named \<open>root\<close>, projects below it, containers (never expanded) below
  them; and, in addition, no other node named \<open>root\<close>.
\<close>

definition containerLevel :: "TreeNode \<Rightarrow> bool" where
  "containerLevel n \<longleftrightarrow> Type n = NodeTypeContainer \<and> NodeName n \<noteq> ''root'' \<and> \<not> Expanded n"

definition projectLevel :: "TreeNode \<Rightarrow> bool" where
  "projectLevel p \<longleftrightarrow>
     Type p = NodeTypeProject \<and> NodeName p \<noteq> ''root'' \<and> list_all containerLevel (Children p)"

definition rootLevel :: "TreeNode \<Rightarrow> bool" where
  "rootLevel r \<longleftrightarrow>
     Type r = NodeTypeProject \<and> NodeName r = ''root'' \<and> Expanded r
     \<and> list_all projectLevel (Children r)"

lemma flattenNode_container: "containerLevel n \<Longrightarrow> flattenNode n q = [q]"
  by (simp add: flattenNode_unfold containerLevel_def shown_def)

lemma flattenChildren_project:
  assumes "list_all containerLevel (Children p)"
  shows "flattenChildren p q = map (\<lambda>j. q @ [j]) [0..<length (Children p)]"
proof -
  have E: "map (\<lambda>j. flattenNode (Children p ! j) (q @ [j])) [0..<length (Children p)] =
      map (\<lambda>j. [q @ [j]]) [0..<length (Children p)]"
    using assms by (intro map_cong refl flattenNode_container) (simp add: list_all_length)
  show ?thesis
    unfolding flattenChildren_def E by (rule concat_map_singleton)
qed


lemma flattenNode_project:
  assumes "projectLevel p"
  shows "flattenNode p q =
     q # (if Expanded p then map (\<lambda>j. q @ [j]) [0..<length (Children p)] else [])"
proof -
  from assms have "shown p" "list_all containerLevel (Children p)"
    by (simp_all add: projectLevel_def shown_def)
  then show ?thesis
    by (simp add: flattenNode_unfold flattenChildren_project)
qed

definition projectLines :: "TreeNode \<Rightarrow> nat \<Rightarrow> ptr list" where
  "projectLines r i =
     [i] # (if Expanded (Children r ! i)
            then map (\<lambda>j. [i, j]) [0..<length (Children (Children r ! i))] else [])"

lemma flattenNode_root:
  assumes "rootLevel r"
  shows "flattenNode r [] = concat (map (projectLines r) [0..<length (Children r)])"
proof -
  have E: "map (\<lambda>i. flattenNode (Children r ! i) ([] @ [i])) [0..<length (Children r)] =
      map (projectLines r) [0..<length (Children r)]"
  proof (rule map_cong [OF refl])
    fix i assume "i \<in> set [0..<length (Children r)]"
    then have "projectLevel (Children r ! i)"
      using assms by (simp add: rootLevel_def list_all_length)
    from flattenNode_project [OF this, of "[] @ [i]"]
    show "flattenNode (Children r ! i) ([] @ [i]) = projectLines r i"
      by (simp add: projectLines_def)
  qed
  from assms have "\<not> shown r" "Expanded r"
    by (simp_all add: rootLevel_def shown_def)
  then have "flattenNode r [] = flattenChildren r []"
    by (simp add: flattenNode_unfold)
  then show ?thesis
    unfolding flattenChildren_def E .
qed

lemma sum_list_Suc: "sum_list (map (\<lambda>p. Suc (f p)) xs) = length xs + sum_list (map f xs)"
  by (induction xs) simp_all

lemma length_flattenNode_root:
  assumes "rootLevel r"
  shows "length (flattenNode r []) = spec_flat_length r"
proof -
  let ?f = "\<lambda>p. if Expanded p then length (Children p) else 0"
  have "map length (map (projectLines r) [0..<length (Children r)]) =
      map (\<lambda>i. Suc (?f (Children r ! i))) [0..<length (Children r)]"
    by (simp add: projectLines_def)
  also have "\<dots> = map (\<lambda>p. Suc (?f p)) (map (\<lambda>i. Children r ! i) [0..<length (Children r)])"
    by (simp add: comp_def)
  also have "\<dots> = map (\<lambda>p. Suc (?f p)) (Children r)"
    by (simp only: map_nth)
  finally have "length (flattenNode r []) = sum_list (map (\<lambda>p. Suc (?f p)) (Children r))"
    unfolding flattenNode_root [OF assms] length_concat by simp
  then show ?thesis
    by (simp only: sum_list_Suc spec_flat_length_def)
qed


lemma flat_entries_root:
  assumes "rootLevel r" "q \<in> set (flattenNode r [])"
  shows "\<exists>n. nodeAt r q = Some n \<and> NodeName n \<noteq> ''root''
     \<and> (Type n = NodeTypeProject \<longrightarrow> (\<exists>i < length (Children r). q = [i]))"
proof -
  from assms obtain i where i: "i < length (Children r)" "q \<in> set (projectLines r i)"
    by (auto simp: flattenNode_root)
  then have p: "projectLevel (Children r ! i)"
    using assms(1) by (simp add: rootLevel_def list_all_length)
  from i(2) consider "q = [i]"
    | j where "j < length (Children (Children r ! i))" "q = [i, j]"
    by (auto simp: projectLines_def split: if_splits)
  then show ?thesis
  proof cases
    case 1
    with i p show ?thesis by (auto simp: projectLevel_def)
  next
    case 2
    with p have "containerLevel (Children (Children r ! i) ! j)"
      by (simp add: projectLevel_def list_all_length)
    with 2 i show ?thesis by (simp add: containerLevel_def)
  qed
qed

lemma rootLevel_BuildTree:
  assumes "''root'' \<notin> (\<lambda>c. ParseProjectName (Name c)) ` set cs"
  shows "rootLevel (Root (BuildTree cs))"
proof -
  let ?al = "foldl addToProject [] cs"
  have "projectLevel (projectNode ?al k)" if "k \<in> set (projectNamesOf cs)" for k
  proof -
    from that have "k \<in> (\<lambda>c. ParseProjectName (Name c)) ` set cs"
      by (simp add: projectNamesOf_eq)
    with assms have k: "k \<noteq> ''root''"
      by blast
    have "containerLevel (containerNode c)"
      if "c \<in> set (lookupProject ?al k)" for c
    proof -
      from that have c: "c \<in> set cs" "ParseProjectName (Name c) = k"
        by (auto simp: lookupProject_foldl lookupProject_Nil)
      have "ParseProjectName ''root'' = ''root''"
        by (simp add: ParseProjectName_def Index_def)
      with c k have "Name c \<noteq> ''root''" by auto
      then show ?thesis
        by (simp add: containerLevel_def containerNode_def)
    qed
    with k show ?thesis
      by (simp add: projectLevel_def projectNode_def list_all_iff)
  qed
  then show ?thesis
    by (simp add: rootLevel_def Root_BuildTree list_all_iff)
qed

lemma rootLevel_setExpanded:
  assumes "rootLevel r" "i < length (Children r)"
  shows "rootLevel (setExpanded r [i] b)"
proof -
  obtain ty nm ct ch ex where r: "r = TreeNode ty nm ct ch ex" by (cases r)
  obtain ty' nm' ct' ch' ex' where p: "ch ! i = TreeNode ty' nm' ct' ch' ex'" by (cases "ch ! i")
  from assms have "projectLevel (ch ! i)"
    by (simp add: r rootLevel_def list_all_length)
  then have "projectLevel (setExpanded (ch ! i) [] b)"
    by (simp add: p projectLevel_def)
  with assms show ?thesis
    by (auto simp: r rootLevel_def list_all_length nth_list_update)
qed

lemma rootLevel_ToggleExpanded:
  assumes "rootLevel (Root t)" "Flat t = flattenNode (Root t) []"
  shows "rootLevel (Root (ToggleExpanded t))
     \<and> Flat (ToggleExpanded t) = flattenNode (Root (ToggleExpanded t)) []"
proof (cases "\<exists>p node. GetSelected t = Some p \<and> nodeAt (Root t) p = Some node
    \<and> Type node = NodeTypeProject")
  case True
  then obtain p node where s: "GetSelected t = Some p" "nodeAt (Root t) p = Some node"
      "Type node = NodeTypeProject"
    by blast
  from s(1) have "p \<in> set (Flat t)"
    by (auto simp: GetSelected_def split: if_splits)
  with assms s(2,3) obtain i where "i < length (Children (Root t))" "p = [i]"
    using flat_entries_root [of "Root t" p] by auto
  with assms(1) s show ?thesis
    by (simp add: ToggleExpanded_def UpdateFlatView_def rootLevel_setExpanded)
next
  case False
  then have "ToggleExpanded t = t"
    by (intro ToggleExpanded_noop) (metis not_Some_eq)
  with assms show ?thesis by simp
qed

text \<open>
  Where no container's project name is \<open>root\<close> the flat view is as specified: after the
  build and after every toggle the flat view has no node named \<open>root\<close>, its length is the number
  of projects plus the number of containers of expanded projects, and project \<open>i\<close>
  contributes its own entry, followed by its containers if it is expanded.
\<close>

lemma flat_view_without_root_project:
  assumes "rootLevel (Root t)" "Flat t = flattenNode (Root t) []"
  shows "length (Flat t) = spec_flat_length (Root t)
    \<and> (\<forall>q \<in> set (Flat t). \<exists>n. nodeAt (Root t) q = Some n \<and> NodeName n \<noteq> ''root'')
    \<and> Flat t = concat (map (projectLines (Root t)) [0..<length (Children (Root t))])"
  using assms length_flattenNode_root [of "Root t"] flat_entries_root [of "Root t"]
    flattenNode_root [of "Root t"]
  by auto

lemma BuildTree_current: "Flat (BuildTree cs) = flattenNode (Root (BuildTree cs)) []"
  by (simp add: BuildTree_def Let_def UpdateFlatView_def)

subsection \<open>Node paths and selection restore\<close>

text \<open>
  The \<^verbatim>\<open>Parent\<close> field: the parent of the node at an address is the node at the address
  without its last index; the root has none (\<^verbatim>\<open>nil\<close>).
\<close>

definition Parent :: "ptr \<Rightarrow> ptr option" where
  "Parent p = (if p = [] then None else Some (butlast p))"

text \<open>\<^verbatim>\<open>strings.Join\<close>.\<close>

fun Join :: "string list \<Rightarrow> string \<Rightarrow> string" where
  "Join [] sep = []"
| "Join [x] sep = x"
| "Join (x # y # ys) sep = x @ sep @ Join (y # ys) sep"

text \<open>
  The loop of \<^verbatim>\<open>GetNodePath\<close>: while \<^verbatim>\<open>current\<close> is not nil and is not named
  \<open>root\<close>, put its name in front of \<^verbatim>\<open>path\<close> and go to its parent.
\<close>

function pathLoop :: "TreeNode \<Rightarrow> ptr option \<Rightarrow> string list \<Rightarrow> string list" where
  "pathLoop r current path =
     (case current of
        None \<Rightarrow> path
      | Some p \<Rightarrow>
          (case nodeAt r p of
             None \<Rightarrow> path
           | Some n \<Rightarrow>
               if NodeName n = ''root'' then path
               else pathLoop r (Parent p) (NodeName n # path)))"
  by pat_completeness auto
termination
  by (relation "measure (\<lambda>(r, current, path). case current of None \<Rightarrow> 0 | Some p \<Rightarrow> Suc (length p))")
    (auto simp: Parent_def split: if_splits)

definition GetNodePath :: "Tree \<Rightarrow> ptr option \<Rightarrow> string" where
  "GetNodePath t node =
     (case node of None \<Rightarrow> [] | Some p \<Rightarrow> Join (pathLoop (Root t) (Some p) []) ''/'')"

text \<open>
  The scan of \<^verbatim>\<open>RestoreSelection\<close> over the flat view, \<open>i\<close> being the index of the head
  of the rest: the index of the first node whose path is the argument.
\<close>

fun scanFlat :: "Tree \<Rightarrow> string \<Rightarrow> ptr list \<Rightarrow> nat \<Rightarrow> nat option" where
  "scanFlat t path [] i = None"
| "scanFlat t path (node # rest) i =
     (if GetNodePath t (Some node) = path then Some i else scanFlat t path rest (Suc i))"

definition RestoreSelection :: "Tree \<Rightarrow> string \<Rightarrow> Tree" where
  "RestoreSelection t path =
     (if path = [] then t
      else
        case scanFlat t path (Flat t) 0 of
          Some i \<Rightarrow> t\<lparr>Selected := int i\<rparr>
        | None \<Rightarrow> if Selected t \<ge> int (length (Flat t)) then t\<lparr>Selected := 0\<rparr> else t)"

lemma scanFlat_none:
  "(\<forall>x \<in> set xs. GetNodePath t (Some x) \<noteq> path) \<Longrightarrow> scanFlat t path xs k = None"
  by (induction xs arbitrary: k) auto

lemma scanFlat_first:
  "i < length xs \<Longrightarrow> GetNodePath t (Some (xs ! i)) = path \<Longrightarrow>
   (\<forall>j<i. GetNodePath t (Some (xs ! j)) \<noteq> path) \<Longrightarrow>
   scanFlat t path xs k = Some (k + i)"
proof (induction xs arbitrary: k i)
  case Nil
  then show ?case by simp
next
  case (Cons x xs)
  show ?case
  proof (cases i)
    case 0
    with Cons.prems show ?thesis by simp
  next
    case (Suc i')
    with Cons.prems have "GetNodePath t (Some x) \<noteq> path" by auto
    moreover have "scanFlat t path xs (Suc k) = Some (Suc k + i')"
      using Cons.prems Suc by (intro Cons.IH) auto
    ultimately show ?thesis using Suc by simp
  qed
qed

text \<open>
  C7, amended.  For a non-empty path, \<^verbatim>\<open>RestoreSelection\<close> sets the selection to the
  index of the first node of the flat view whose computed path is the argument, if there
  is one; if there is none, the selection is left as it is unless it is at or past the
  length of the flat view, in which case it becomes 0.  For the empty path the call
  returns at once and the tree, selection included, is unchanged.
\<close>

theorem C7_RestoreSelection:
  "RestoreSelection t [] = t
   \<and> (path \<noteq> [] \<longrightarrow>
        (\<forall>i. i < length (Flat t) \<and> GetNodePath t (Some (Flat t ! i)) = path
              \<and> (\<forall>j<i. GetNodePath t (Some (Flat t ! j)) \<noteq> path)
           \<longrightarrow> RestoreSelection t path = t\<lparr>Selected := int i\<rparr>)
        \<and> ((\<forall>i<length (Flat t). GetNodePath t (Some (Flat t ! i)) \<noteq> path)
           \<longrightarrow> RestoreSelection t path =
                 (if Selected t \<ge> int (length (Flat t)) then t\<lparr>Selected := 0\<rparr> else t)))"
proof (intro conjI impI allI)
  show "RestoreSelection t [] = t"
    by (simp add: RestoreSelection_def)
next
  fix i
  assume ne: "path \<noteq> []"
    and "i < length (Flat t) \<and> GetNodePath t (Some (Flat t ! i)) = path
              \<and> (\<forall>j<i. GetNodePath t (Some (Flat t ! j)) \<noteq> path)"
  then have "scanFlat t path (Flat t) 0 = Some (0 + i)"
    by (intro scanFlat_first) auto
  with ne show "RestoreSelection t path = t\<lparr>Selected := int i\<rparr>"
    by (simp add: RestoreSelection_def)
next
  assume ne: "path \<noteq> []"
    and "\<forall>i<length (Flat t). GetNodePath t (Some (Flat t ! i)) \<noteq> path"
  then have "scanFlat t path (Flat t) 0 = None"
    by (intro scanFlat_none) (auto simp: in_set_conv_nth)
  with ne show "RestoreSelection t path =
      (if Selected t \<ge> int (length (Flat t)) then t\<lparr>Selected := 0\<rparr> else t)"
    by (simp add: RestoreSelection_def)
qed


text \<open>
  C7 as stated fails for the empty path: on the tree of \<open>shop_web\<close>, \<open>shop_db\<close>, \<open>solo\<close>
  with the selection at 7, no node of the flat view (five entries) has the empty path,
  the selection is past the end, and the call leaves it at 7 instead of resetting it.
\<close>

theorem C7_empty_path_counterexample:
  "Flat (demoTree\<lparr>Selected := 7\<rparr>) = [[0], [0, 0], [0, 1], [1], [1, 0]]
   \<and> GetNodePath (demoTree\<lparr>Selected := 7\<rparr>) (Some [0]) = ''shop''
   \<and> GetNodePath (demoTree\<lparr>Selected := 7\<rparr>) (Some [0, 0]) = ''shop/shop_db''
   \<and> GetNodePath (demoTree\<lparr>Selected := 7\<rparr>) (Some [0, 1]) = ''shop/shop_web''
   \<and> GetNodePath (demoTree\<lparr>Selected := 7\<rparr>) (Some [1]) = ''solo''
   \<and> GetNodePath (demoTree\<lparr>Selected := 7\<rparr>) (Some [1, 0]) = ''solo/solo''
   \<and> int (length (Flat (demoTree\<lparr>Selected := 7\<rparr>))) \<le> Selected (demoTree\<lparr>Selected := 7\<rparr>)
   \<and> Selected (RestoreSelection (demoTree\<lparr>Selected := 7\<rparr>) []) = 7
   \<and> Selected (RestoreSelection (demoTree\<lparr>Selected := 7\<rparr>) []) \<noteq> 0"
  by code_simp

text \<open>
  The amended C7 on the same tree: the path \<open>solo\<close> is found at index 3; the path
  \<open>gone\<close> is not found and the selection 7 is reset to 0.
\<close>

theorem C7_RestoreSelection_witness:
  "''solo'' \<noteq> [] \<and> 3 < length (Flat demoTree)
   \<and> GetNodePath demoTree (Some (Flat demoTree ! 3)) = ''solo''
   \<and> RestoreSelection demoTree ''solo'' = demoTree\<lparr>Selected := 3\<rparr>
   \<and> Selected (demoTree\<lparr>Selected := 7\<rparr>) \<ge> int (length (Flat (demoTree\<lparr>Selected := 7\<rparr>)))
   \<and> RestoreSelection (demoTree\<lparr>Selected := 7\<rparr>) ''gone'' = demoTree\<lparr>Selected := 0\<rparr>"
proof -
  let ?t = "demoTree\<lparr>Selected := 7\<rparr>"
  have a: "3 < length (Flat demoTree) \<and> GetNodePath demoTree (Some (Flat demoTree ! 3)) = ''solo''
      \<and> (\<forall>j<3. GetNodePath demoTree (Some (Flat demoTree ! j)) \<noteq> ''solo'')"
    by code_simp
  have b: "(\<forall>i<length (Flat ?t). GetNodePath ?t (Some (Flat ?t ! i)) \<noteq> ''gone'')
      \<and> Selected ?t \<ge> int (length (Flat ?t))"
    by code_simp
  have 1: "RestoreSelection demoTree ''solo'' = demoTree\<lparr>Selected := 3\<rparr>"
    using C7_RestoreSelection [of demoTree "''solo''"] a by force
  have 2: "RestoreSelection ?t ''gone'' = demoTree\<lparr>Selected := 0\<rparr>"
    using C7_RestoreSelection [of ?t "''gone''"] b by force
  show ?thesis
    using 1 2 a b by simp
qed


subsection \<open>Viewport\<close>

text \<open>
  The fields of the \<^verbatim>\<open>ui.Model\<close> that the viewport code reads and writes.  \<^verbatim>\<open>tree\<close>
  is a pointer and may be nil.  Go's \<^verbatim>\<open>int\<close> is modelled as \<^typ>\<open>int\<close>: heights come
  from the terminal geometry and indices are bounded by slice lengths, far from the
  64-bit range.
\<close>

record Model =
  tree :: "Tree option"
  height :: int
  viewportTop :: int

definition visibleHeight :: "Model \<Rightarrow> int" where
  "visibleHeight m = (let visibleHeight = height m - 5 in
     if visibleHeight < 1 then 1 else visibleHeight)"

definition adjustViewport :: "Model \<Rightarrow> Model" where
  "adjustViewport m =
     (case tree m of
        None \<Rightarrow> m
      | Some t \<Rightarrow>
          if length (Flat t) = 0 then m
          else
            let visibleHeight = visibleHeight m;
                selected = Selected t;
                m = (if selected \<ge> viewportTop m + visibleHeight
                     then m\<lparr>viewportTop := selected - visibleHeight + 1\<rparr> else m);
                m = (if selected < viewportTop m then m\<lparr>viewportTop := selected\<rparr> else m);
                m = (if viewportTop m < 0 then m\<lparr>viewportTop := 0\<rparr> else m)
            in m)"

text \<open>
  The navigation calls of \<^verbatim>\<open>handleKeyPress\<close>: \<^verbatim>\<open>m.tree.MoveUp()\<close>,
  \<^verbatim>\<open>m.tree.MoveDown()\<close> and \<^verbatim>\<open>m.adjustViewport()\<close>.  The first two dereference
  \<^verbatim>\<open>m.tree\<close> and panic when it is nil (\<open>None\<close>).
\<close>

datatype nav = NavUp | NavDown | NavAdjust

fun navStep :: "nav \<Rightarrow> Model \<Rightarrow> Model option" where
  "navStep NavUp m =
     (case tree m of None \<Rightarrow> None | Some t \<Rightarrow> Some (m\<lparr>tree := Some (MoveUp t)\<rparr>))"
| "navStep NavDown m =
     (case tree m of None \<Rightarrow> None | Some t \<Rightarrow> Some (m\<lparr>tree := Some (MoveDown t)\<rparr>))"
| "navStep NavAdjust m = Some (adjustViewport m)"

fun navRun :: "nav list \<Rightarrow> Model \<Rightarrow> Model option" where
  "navRun [] m = Some m"
| "navRun (e # es) m = (case navStep e m of None \<Rightarrow> None | Some m' \<Rightarrow> navRun es m')"

text \<open>The invariant of the viewport, and the validity of a selection index.\<close>

definition viewportOK :: "Model \<Rightarrow> Tree \<Rightarrow> bool" where
  "viewportOK m t \<longleftrightarrow>
     viewportTop m \<le> Selected t \<and> Selected t < viewportTop m + visibleHeight m
     \<and> 0 \<le> viewportTop m"

lemma visibleHeight_pos: "1 \<le> visibleHeight m"
  by (simp add: visibleHeight_def Let_def)

lemma visibleHeight_viewportTop [simp]: "visibleHeight (m\<lparr>viewportTop := v\<rparr>) = visibleHeight m"
  by (simp add: visibleHeight_def)

lemma visibleHeight_tree [simp]: "visibleHeight (m\<lparr>tree := v\<rparr>) = visibleHeight m"
  by (simp add: visibleHeight_def)

lemma adjustViewport_ok:
  assumes "tree m = Some t" "Flat t \<noteq> []" "0 \<le> Selected t"
  shows "viewportOK (adjustViewport m) t \<and> tree (adjustViewport m) = Some t
     \<and> height (adjustViewport m) = height m"
  using assms visibleHeight_pos [of m]
  by (auto simp: adjustViewport_def viewportOK_def Let_def)

lemma adjustViewport_empty:
  "tree m = None \<or> (\<exists>t. tree m = Some t \<and> Flat t = []) \<Longrightarrow> adjustViewport m = m"
  by (auto simp: adjustViewport_def)

definition selectionOK :: "Tree \<Rightarrow> bool" where
  "selectionOK t \<longleftrightarrow> 0 \<le> Selected t \<and> Selected t \<le> max 0 (int (length (Flat t)) - 1)"

lemma MoveUp_props:
  "Flat (MoveUp t) = Flat t \<and> Root (MoveUp t) = Root t
   \<and> (selectionOK t \<longrightarrow> selectionOK (MoveUp t) \<and> Selected (MoveUp t) = max 0 (Selected t - 1))"
  by (auto simp: MoveUp_def selectionOK_def)

lemma MoveDown_props:
  "Flat (MoveDown t) = Flat t \<and> Root (MoveDown t) = Root t
   \<and> (selectionOK t \<longrightarrow> selectionOK (MoveDown t)
        \<and> Selected (MoveDown t) = min (max 0 (int (length (Flat t)) - 1)) (Selected t + 1))"
  by (auto simp: MoveDown_def selectionOK_def)

lemma navStep_keeps:
  assumes "tree m = Some t" "selectionOK t"
  shows "\<exists>m' t'. navStep e m = Some m' \<and> tree m' = Some t' \<and> Flat t' = Flat t
     \<and> selectionOK t' \<and> height m' = height m"
proof (cases e)
  case NavUp
  then show ?thesis using assms MoveUp_props [of t] by simp
next
  case NavDown
  then show ?thesis using assms MoveDown_props [of t] by simp
next
  case NavAdjust
  then show ?thesis using assms
    by (cases "Flat t = []") (auto simp: adjustViewport_def Let_def)
qed

lemma navRun_keeps:
  assumes "tree m = Some t" "selectionOK t"
  shows "\<exists>m' t'. navRun es m = Some m' \<and> tree m' = Some t' \<and> Flat t' = Flat t
     \<and> selectionOK t' \<and> height m' = height m"
  using assms
proof (induction es arbitrary: m t)
  case Nil
  then show ?case by simp
next
  case (Cons e es)
  from navStep_keeps [OF Cons.prems, of e] obtain m1 t1 where
    1: "navStep e m = Some m1" "tree m1 = Some t1" "Flat t1 = Flat t" "selectionOK t1"
       "height m1 = height m"
    by blast
  from Cons.IH [OF 1(2) 1(4)] 1 show ?case by auto
qed

lemma navRun_append:
  "navRun (es @ fs) m = (case navRun es m of None \<Rightarrow> None | Some m' \<Rightarrow> navRun fs m')"
  by (induction es arbitrary: m) (auto split: option.splits)

text \<open>
  C3.  Take a model whose tree has a non-empty flat view and a valid selection
  (\<^const>\<open>selectionOK\<close>, which \<^verbatim>\<open>BuildTree\<close> establishes).  After any finite sequence of
  \<^verbatim>\<open>MoveUp\<close>, \<^verbatim>\<open>MoveDown\<close> and \<^verbatim>\<open>adjustViewport\<close> calls followed by
  \<^verbatim>\<open>adjustViewport\<close>, no call has panicked and \<open>top \<le> selected < top + height\<close> and
  \<open>0 \<le> top\<close> hold, where \<open>height\<close> is the number of visible rows.  \<^verbatim>\<open>MoveUp\<close> and
  \<^verbatim>\<open>MoveDown\<close> change the selection by one, clamped to \<open>[0, len(Flat) - 1]\<close>, and leave
  a tree with an empty flat view as it is; \<^verbatim>\<open>adjustViewport\<close> leaves a model with an
  empty flat view as it is.
\<close>

theorem C3_viewport:
  "(tree m = Some t \<and> Flat t \<noteq> [] \<and> selectionOK t \<longrightarrow>
      (\<exists>m' t'. navRun (es @ [NavAdjust]) m = Some m' \<and> tree m' = Some t'
         \<and> Flat t' = Flat t \<and> selectionOK t'
         \<and> viewportTop m' \<le> Selected t' \<and> Selected t' < viewportTop m' + visibleHeight m'
         \<and> 0 \<le> viewportTop m'))
   \<and> (selectionOK t \<longrightarrow>
        Selected (MoveUp t) = max 0 (Selected t - 1)
        \<and> Selected (MoveDown t) = min (max 0 (int (length (Flat t)) - 1)) (Selected t + 1)
        \<and> Flat (MoveUp t) = Flat t \<and> Flat (MoveDown t) = Flat t)
   \<and> (selectionOK t \<and> Flat t = [] \<longrightarrow> MoveUp t = t \<and> MoveDown t = t)
   \<and> (tree m = Some t \<and> Flat t = [] \<longrightarrow> adjustViewport m = m)"
proof (intro conjI impI)
  assume a: "tree m = Some t \<and> Flat t \<noteq> [] \<and> selectionOK t"
  then obtain m1 t1 where 1: "navRun es m = Some m1" "tree m1 = Some t1" "Flat t1 = Flat t"
      "selectionOK t1"
    using navRun_keeps [of m t es] by blast
  with a have "viewportOK (adjustViewport m1) t1 \<and> tree (adjustViewport m1) = Some t1"
    using adjustViewport_ok [of m1 t1] by (simp add: selectionOK_def)
  with 1 show "\<exists>m' t'. navRun (es @ [NavAdjust]) m = Some m' \<and> tree m' = Some t'
         \<and> Flat t' = Flat t \<and> selectionOK t'
         \<and> viewportTop m' \<le> Selected t' \<and> Selected t' < viewportTop m' + visibleHeight m'
         \<and> 0 \<le> viewportTop m'"
    by (simp add: navRun_append viewportOK_def)
next
  assume "selectionOK t \<and> Flat t = []"
  then have "Selected t = 0" "Flat t = []"
    by (auto simp: selectionOK_def)
  then show "MoveUp t = t" "MoveDown t = t"
    by (simp_all add: MoveUp_def MoveDown_def)
next
  assume "tree m = Some t \<and> Flat t = []"
  then show "adjustViewport m = m"
    by (simp add: adjustViewport_def)
qed (simp_all add: MoveUp_props MoveDown_props)


lemma selectionOK_BuildTree: "selectionOK (BuildTree cs)"
  by (simp add: selectionOK_def BuildTree_def Let_def UpdateFlatView_def)

text \<open>The example tree in a terminal of seven rows: two of them show the tree.\<close>

definition demoModel :: Model where
  "demoModel = \<lparr>tree = Some demoTree, height = 7, viewportTop = 0\<rparr>"

text \<open>
  C3 on the tree of \<open>shop_web\<close>, \<open>shop_db\<close>, \<open>solo\<close> with two visible rows: three moves
  down and an adjustment put the selection at 3 and the top of the viewport at 2.
\<close>

theorem C3_viewport_witness:
  "tree demoModel = Some demoTree \<and> Flat demoTree \<noteq> [] \<and> selectionOK demoTree
   \<and> navRun ([NavDown, NavDown, NavDown] @ [NavAdjust]) demoModel =
        Some \<lparr>tree = Some (demoTree\<lparr>Selected := 3\<rparr>), height = 7, viewportTop = 2\<rparr>
   \<and> visibleHeight demoModel = 2
   \<and> (\<exists>m' t'. navRun ([NavDown, NavDown, NavDown] @ [NavAdjust]) demoModel = Some m'
         \<and> tree m' = Some t'
         \<and> viewportTop m' \<le> Selected t' \<and> Selected t' < viewportTop m' + visibleHeight m'
         \<and> 0 \<le> viewportTop m')
   \<and> Selected (MoveUp demoTree) = 0 \<and> Selected (MoveDown demoTree) = 1"
proof -
  have a: "tree demoModel = Some demoTree \<and> Flat demoTree \<noteq> [] \<and> selectionOK demoTree"
    by (simp add: demoModel_def demoTree_eval selectionOK_def)
  have r: "navRun ([NavDown, NavDown, NavDown] @ [NavAdjust]) demoModel =
        Some \<lparr>tree = Some (demoTree\<lparr>Selected := 3\<rparr>), height = 7, viewportTop = 2\<rparr>"
    by (simp add: demoModel_def demoTree_eval MoveDown_def adjustViewport_def visibleHeight_def)
  have v: "visibleHeight demoModel = 2"
    by (simp add: demoModel_def visibleHeight_def)
  have f: "int (length (Flat demoTree)) = 5" "Selected demoTree = 0"
    by (simp_all add: demoTree_eval)
  from C3_viewport [of demoModel demoTree "[NavDown, NavDown, NavDown]"] a
  have "(\<exists>m' t'. navRun ([NavDown, NavDown, NavDown] @ [NavAdjust]) demoModel = Some m'
         \<and> tree m' = Some t'
         \<and> viewportTop m' \<le> Selected t' \<and> Selected t' < viewportTop m' + visibleHeight m'
         \<and> 0 \<le> viewportTop m')"
    and "Selected (MoveUp demoTree) = max 0 (Selected demoTree - 1)"
    and "Selected (MoveDown demoTree) =
           min (max 0 (int (length (Flat demoTree)) - 1)) (Selected demoTree + 1)"
    by blast+
  then show ?thesis
    using a r v by (simp add: f)
qed

subsection \<open>The runtime client (\<^verbatim>\<open>docker/client.go\<close>)\<close>

text \<open>
  The types of the Docker API that the client reads, with the fields it uses: a
  container summary, the list options, and the decoded statistics sample
  (\<^verbatim>\<open>statsResponse\<close>; the nested structs are flattened into one record).
\<close>

record Summary =
  sID :: string
  sNames :: "string list"
  sImage :: string
  sState :: string
  sStatus :: string
  sCreated :: int
  sLabels :: "(string \<times> string) list"

record ListOptions =
  optAll :: bool

record statsResponse =
  CPUStats_TotalUsage :: "64 word"
  CPUStats_SystemUsage :: "64 word"
  CPUStats_OnlineCPUs :: "32 word"
  PreCPUStats_TotalUsage :: "64 word"
  PreCPUStats_SystemUsage :: "64 word"
  MemoryStats_Usage :: "64 word"
  MemoryStats_Limit :: "64 word"
  Networks :: "(string \<times> 64 word \<times> 64 word) list"

record statsData =
  cpuPerc :: real
  memPerc :: real
  memUsage :: string
  netRx :: "64 word"
  netTx :: "64 word"

text \<open>
  What a sampling call meets: \<^verbatim>\<open>ContainerStats\<close> returns an error; the decoder returns
  an error other than \<^verbatim>\<open>io.EOF\<close>; the body is empty and the decoder returns \<^verbatim>\<open>io.EOF\<close>,
  which the code lets through; or the sample is decoded.
\<close>

datatype statsReply = StatsError | DecodeError | EmptyBody | Decoded statsResponse

datatype error = ListError string | IndexPanic

record Runtime =
  ContainerList :: "ListOptions \<Rightarrow> string + Summary list"
  ContainerStats :: "string \<Rightarrow> statsReply"

text \<open>
  \<^verbatim>\<open>float64(x)\<close> of an unsigned integer is its value as a real number, and the float
  operations are the real ones: rounding is not modelled.  It changes no comparison with
  zero and no sign.  The subtractions are those of \<^verbatim>\<open>uint64\<close> and wrap around.
\<close>

definition float64 :: "'a::len word \<Rightarrow> real" where
  "float64 x = real (unat x)"

definition cpuPercOf :: "statsResponse \<Rightarrow> real" where
  "cpuPercOf v =
     (let cpuDelta = float64 (CPUStats_TotalUsage v - PreCPUStats_TotalUsage v);
          systemDelta = float64 (CPUStats_SystemUsage v - PreCPUStats_SystemUsage v);
          onlineCPUs = float64 (CPUStats_OnlineCPUs v)
      in if systemDelta > 0 \<and> cpuDelta > 0
         then (cpuDelta / systemDelta) * onlineCPUs * 100 else 0)"

definition memPercOf :: "statsResponse \<Rightarrow> real" where
  "memPercOf v =
     (if MemoryStats_Limit v > 0
      then (float64 (MemoryStats_Usage v) / float64 (MemoryStats_Limit v)) * 100 else 0)"

definition failedStats :: statsData where
  "failedStats = \<lparr>cpuPerc = 0, memPerc = 0, memUsage = ''N/A'', netRx = 0, netTx = 0\<rparr>"

text \<open>
  \<^verbatim>\<open>formatBytes\<close>.  The loop divides \<open>n\<close> by 1024 while it is at least 1024, and counts;
  \<open>divisor\<close> and \<open>exponent\<close> are \<^verbatim>\<open>div\<close> and \<^verbatim>\<open>exp\<close>.  The text that
  \<^verbatim>\<open>fmt.Sprintf\<close> gives for a float under \<^verbatim>\<open>%.1f\<close> is outside this development: it is the
  parameter \<open>sprintf1\<close> of the functions that format.  Below 1024 bytes the result is the
  fixed text \<open>0 B\<close>.
\<close>

function unitLoop :: "nat \<Rightarrow> 64 word \<Rightarrow> nat \<Rightarrow> 64 word \<times> nat" where
  "unitLoop n divisor exponent =
     (if n \<ge> 1024 then unitLoop (n div 1024) (divisor * 1024) (exponent + 1)
      else (divisor, exponent))"
  by pat_completeness auto
termination
  by (relation "measure (\<lambda>(n, divisor, exponent). n)") auto

definition formatBytes :: "(real \<Rightarrow> string) \<Rightarrow> 64 word \<Rightarrow> string" where
  "formatBytes sprintf1 bytes =
     (if bytes < 1024 then ''0 B''
      else
        let (divisor, exponent) = unitLoop (unat bytes div 1024) 1024 0
        in sprintf1 (float64 bytes / float64 divisor) @ '' '' @ [''KMGTPE'' ! exponent] @ ''iB'')"

text \<open>
  The sample that \<^verbatim>\<open>getContainerStats\<close> computes from: the decoded response, or the zero
  value of \<^verbatim>\<open>statsResponse\<close> when the body was empty.
\<close>

definition zeroResponse :: statsResponse where
  "zeroResponse =
     \<lparr>CPUStats_TotalUsage = 0, CPUStats_SystemUsage = 0, CPUStats_OnlineCPUs = 0,
      PreCPUStats_TotalUsage = 0, PreCPUStats_SystemUsage = 0,
      MemoryStats_Usage = 0, MemoryStats_Limit = 0, Networks = []\<rparr>"

definition computeStats :: "(real \<Rightarrow> string) \<Rightarrow> statsResponse \<Rightarrow> statsData" where
  "computeStats sprintf1 v =
     \<lparr>cpuPerc = cpuPercOf v,
      memPerc = memPercOf v,
      memUsage = formatBytes sprintf1 (MemoryStats_Usage v) @ '' / '' @
                 formatBytes sprintf1 (MemoryStats_Limit v),
      netRx = sum_list (map (\<lambda>(name, rx, tx). rx) (Networks v)),
      netTx = sum_list (map (\<lambda>(name, rx, tx). tx) (Networks v))\<rparr>"

definition getContainerStats :: "(real \<Rightarrow> string) \<Rightarrow> Runtime \<Rightarrow> string \<Rightarrow> statsData" where
  "getContainerStats sprintf1 c containerID =
     (case ContainerStats c containerID of
        StatsError \<Rightarrow> failedStats
      | DecodeError \<Rightarrow> failedStats
      | EmptyBody \<Rightarrow> computeStats sprintf1 zeroResponse
      | Decoded v \<Rightarrow> computeStats sprintf1 v)"

definition TrimPrefix :: "string \<Rightarrow> string \<Rightarrow> string" where
  "TrimPrefix s pre = (if prefix pre s then drop (length pre) s else s)"

text \<open>
  The record written to \<^verbatim>\<open>result[i]\<close> before any statistics arrive.  \<^verbatim>\<open>ctr.Names[0]\<close>
  and \<^verbatim>\<open>ctr.ID[:12]\<close> panic on an empty name list and on an identifier shorter than 12
  bytes.
\<close>

definition baseInfo :: "Summary \<Rightarrow> ContainerInfo" where
  "baseInfo ctr =
     \<lparr>ID = take 12 (sID ctr), Name = TrimPrefix (hd (sNames ctr)) ''/'',
      Image = sImage ctr, State = sState ctr, Status = sStatus ctr,
      CPUPerc = 0, MemPerc = 0, MemUsage = ''N/A'', NetRx = 0, NetTx = 0,
      NetIO = [], BlockIO = [], CreatedAt = sCreated ctr, Labels = sLabels ctr\<rparr>"

definition initialInfo :: "Summary \<Rightarrow> error + ContainerInfo" where
  "initialInfo ctr =
     (if sNames ctr = [] then Inl IndexPanic
      else if length (sID ctr) < 12 then Inl IndexPanic
      else Inr (baseInfo ctr))"

fun initialInfos :: "Summary list \<Rightarrow> error + ContainerInfo list" where
  "initialInfos [] = Inr []"
| "initialInfos (ctr # rest) =
     (case initialInfo ctr of
        Inl e \<Rightarrow> Inl e
      | Inr info \<Rightarrow> (case initialInfos rest of Inl e \<Rightarrow> Inl e | Inr infos \<Rightarrow> Inr (info # infos)))"

text \<open>
  One \<^verbatim>\<open>statsResult\<close> is an index and the sampled data.  The goroutines started for the
  running containers, in the order of the loop:
\<close>

definition statsTasks ::
  "(real \<Rightarrow> string) \<Rightarrow> Runtime \<Rightarrow> bool \<Rightarrow> Summary list \<Rightarrow> (nat \<times> statsData) list" where
  "statsTasks sprintf1 c includeStats containers =
     map (\<lambda>i. (i, getContainerStats sprintf1 c (sID (containers ! i))))
       (filter (\<lambda>i. sState (containers ! i) = ''running'' \<and> includeStats)
          [0..<length containers])"

text \<open>The body of the collecting loop for one received \<^verbatim>\<open>statsResult\<close>.\<close>

definition applyStats :: "ContainerInfo \<Rightarrow> statsData \<Rightarrow> ContainerInfo" where
  "applyStats info stats =
     info\<lparr>CPUPerc := cpuPerc stats, MemPerc := memPerc stats, MemUsage := memUsage stats,
          NetRx := netRx stats, NetTx := netTx stats\<rparr>"

definition mergeStats :: "ContainerInfo list \<Rightarrow> nat \<times> statsData \<Rightarrow> ContainerInfo list" where
  "mergeStats result stats = result[fst stats := applyStats (result ! fst stats) (snd stats)]"

text \<open>
  \<^verbatim>\<open>ListContainersWithStats\<close>.  The goroutines send their results on a channel with room
  for all of them, and the collecting loop receives as many as were started, in the order
  in which they complete.  That order is the scheduler's: \<open>sched\<close> maps the results in
  the order of the loop to the order of arrival.  Each sampling call is taken to return.
\<close>

definition ListContainersWithStats ::
  "(real \<Rightarrow> string) \<Rightarrow> ((nat \<times> statsData) list \<Rightarrow> (nat \<times> statsData) list) \<Rightarrow>
   Runtime \<Rightarrow> bool \<Rightarrow> error + ContainerInfo list" where
  "ListContainersWithStats sprintf1 sched c includeStats =
     (case ContainerList c \<lparr>optAll = False\<rparr> of
        Inl err \<Rightarrow> Inl (ListError err)
      | Inr containers \<Rightarrow>
          (case initialInfos containers of
             Inl e \<Rightarrow> Inl e
           | Inr result \<Rightarrow>
               if includeStats
               then Inr (foldl mergeStats result
                           (sched (statsTasks sprintf1 c includeStats containers)))
               else Inr result))"

definition ListContainers ::
  "(real \<Rightarrow> string) \<Rightarrow> ((nat \<times> statsData) list \<Rightarrow> (nat \<times> statsData) list) \<Rightarrow>
   Runtime \<Rightarrow> error + ContainerInfo list" where
  "ListContainers sprintf1 sched c = ListContainersWithStats sprintf1 sched c True"


subsection \<open>Merging the statistics\<close>

text \<open>A summary on which \<^const>\<open>initialInfo\<close> does not panic.\<close>

definition wellFormed :: "Summary \<Rightarrow> bool" where
  "wellFormed ctr \<longleftrightarrow> sNames ctr \<noteq> [] \<and> 12 \<le> length (sID ctr)"

lemma initialInfos_wellFormed:
  "list_all wellFormed containers \<Longrightarrow> initialInfos containers = Inr (map baseInfo containers)"
  by (induction containers) (auto simp: initialInfo_def wellFormed_def)

lemma length_mergeStats [simp]: "length (mergeStats result st) = length result"
  by (simp add: mergeStats_def)

lemma nth_mergeStats:
  "i < length result \<Longrightarrow>
   mergeStats result (k, st) ! i = (if i = k then applyStats (result ! k) st else result ! i)"
  by (simp add: mergeStats_def)

lemma length_foldl_mergeStats [simp]: "length (foldl mergeStats result arr) = length result"
  by (induction arr arbitrary: result) simp_all

lemma nth_foldl_mergeStats:
  "distinct (map fst arr) \<Longrightarrow> i < length result \<Longrightarrow>
   foldl mergeStats result arr ! i =
     (case map_of arr i of None \<Rightarrow> result ! i | Some st \<Rightarrow> applyStats (result ! i) st)"
proof (induction arr arbitrary: result)
  case Nil
  then show ?case by simp
next
  case (Cons a arr)
  obtain k st where a: "a = (k, st)" by (cases a)
  have IH: "foldl mergeStats (mergeStats result a) arr ! i =
     (case map_of arr i of None \<Rightarrow> mergeStats result a ! i
      | Some st \<Rightarrow> applyStats (mergeStats result a ! i) st)"
    using Cons.prems by (intro Cons.IH) simp_all
  have none: "map_of arr i = None" if "i = k"
    using that Cons.prems(1) a by (simp add: map_of_eq_None_iff)
  show ?case
  proof (cases "i = k")
    case True
    with IH none Cons.prems(2) show ?thesis
      by (simp add: a nth_mergeStats)
  next
    case False
    with IH Cons.prems(2) show ?thesis
      by (simp add: a nth_mergeStats split: option.split)
  qed
qed

lemma map_of_perm:
  assumes "mset arr = mset tasks" "distinct (map fst tasks)"
  shows "distinct (map fst arr) \<and> map_of arr = map_of tasks"
proof -
  have "mset (map fst arr) = mset (map fst tasks)"
    using assms(1) by (metis mset_map)
  with assms(2) have d: "distinct (map fst arr)"
    by (metis mset_eq_imp_distinct_iff)
  moreover have "set arr = set tasks"
    using assms(1) by (rule mset_eq_setD)
  ultimately show ?thesis
    using assms(2) by (simp add: map_of_inject_set)
qed

lemma statsTasks_distinct: "distinct (map fst (statsTasks fb c inc containers))"
  by (simp add: statsTasks_def comp_def)

lemma map_of_statsTasks:
  "map_of (statsTasks fb c inc containers) i =
     (if i < length containers \<and> sState (containers ! i) = ''running'' \<and> inc
      then Some (getContainerStats fb c (sID (containers ! i))) else None)"
proof -
  let ?P = "\<lambda>i. sState (containers ! i) = ''running'' \<and> inc"
  let ?f = "\<lambda>i. getContainerStats fb c (sID (containers ! i))"
  have "map_of (map (\<lambda>i. (i, ?f i)) xs) i = (if i \<in> set xs then Some (?f i) else None)" for xs
    by (induction xs) auto
  from this [of "filter ?P [0..<length containers]"] show ?thesis
    by (auto simp: statsTasks_def)
qed

text \<open>The record of one container after the cycle, from its summary and its own sample.\<close>

definition finalInfo :: "(real \<Rightarrow> string) \<Rightarrow> Runtime \<Rightarrow> bool \<Rightarrow> Summary \<Rightarrow> ContainerInfo" where
  "finalInfo sprintf1 c includeStats ctr =
     (if sState ctr = ''running'' \<and> includeStats
      then applyStats (baseInfo ctr) (getContainerStats sprintf1 c (sID ctr))
      else baseInfo ctr)"

lemma ListContainersWithStats_closed:
  assumes sched: "\<And>xs. mset (sched xs) = mset xs"
    and list: "ContainerList c \<lparr>optAll = False\<rparr> = Inr containers"
    and wf: "list_all wellFormed containers"
  shows "ListContainersWithStats fb sched c inc = Inr (map (finalInfo fb c inc) containers)"
proof (cases inc)
  case False
  then show ?thesis
    using list wf
    by (simp add: ListContainersWithStats_def initialInfos_wellFormed finalInfo_def)
next
  case True
  let ?tasks = "statsTasks fb c inc containers"
  let ?res = "foldl mergeStats (map baseInfo containers) (sched ?tasks)"
  from map_of_perm [OF sched statsTasks_distinct]
  have d: "distinct (map fst (sched ?tasks))" and m: "map_of (sched ?tasks) = map_of ?tasks"
    by blast+
  have "?res = map (finalInfo fb c inc) containers"
  proof (rule nth_equalityI)
    show "length ?res = length (map (finalInfo fb c inc) containers)" by simp
  next
    fix i assume "i < length ?res"
    then have i: "i < length containers" by simp
    then show "?res ! i = map (finalInfo fb c inc) containers ! i"
      using nth_foldl_mergeStats [OF d, of i "map baseInfo containers"]
      by (simp add: m map_of_statsTasks finalInfo_def)
  qed
  with True list wf show ?thesis
    by (simp add: ListContainersWithStats_def initialInfos_wellFormed)
qed


lemma getContainerStats_failed:
  "ContainerStats c containerID = StatsError \<or> ContainerStats c containerID = DecodeError \<Longrightarrow>
   getContainerStats fb c containerID = failedStats"
  by (auto simp: getContainerStats_def)

lemma getContainerStats_cong:
  "ContainerStats c' containerID = ContainerStats c containerID \<Longrightarrow>
   getContainerStats fb c' containerID = getContainerStats fb c containerID"
  by (simp add: getContainerStats_def)

lemma formatBytes_small: "bytes < 1024 \<Longrightarrow> formatBytes sprintf1 bytes = ''0 B''"
  by (simp add: formatBytes_def)

lemma unitLoop_exponent: "n < 1024 ^ Suc k \<Longrightarrow> snd (unitLoop n d e) \<le> e + k"
proof (induction k arbitrary: n d e)
  case 0
  then show ?case by simp
next
  case (Suc k)
  show ?case
  proof (cases "n \<ge> 1024")
    case True
    from Suc.prems have "n div 1024 < 1024 ^ Suc k"
      by (simp add: less_mult_imp_div_less mult.commute)
    from Suc.IH [OF this, of "d * 1024" "e + 1"] True show ?thesis
      by (subst unitLoop.simps) simp
  next
    case False
    then show ?thesis by simp
  qed
qed

text \<open>The index into \<^verbatim>\<open>"KMGTPE"\<close> is in range for every \<^verbatim>\<open>uint64\<close>.\<close>

lemma formatBytes_exponent: "snd (unitLoop (unat (bytes :: 64 word) div 1024) 1024 0) < 6"
proof -
  have "unat bytes < 2 ^ 64"
    using unsigned_less [of bytes, where 'a = nat] by simp
  then have "unat bytes div 1024 < 1024 ^ Suc 5"
    by simp
  from unitLoop_exponent [OF this, of 1024 0] show ?thesis
    by simp
qed

lemma computeStats_zeroResponse:
  "computeStats sprintf1 zeroResponse =
     \<lparr>cpuPerc = 0, memPerc = 0, memUsage = ''0 B / 0 B'', netRx = 0, netTx = 0\<rparr>"
  by (simp add: computeStats_def zeroResponse_def cpuPercOf_def memPercOf_def float64_def
      formatBytes_small)

lemma getContainerStats_empty:
  "ContainerStats c containerID = EmptyBody \<Longrightarrow>
   getContainerStats sprintf1 c containerID =
     \<lparr>cpuPerc = 0, memPerc = 0, memUsage = ''0 B / 0 B'', netRx = 0, netTx = 0\<rparr>"
  by (simp add: getContainerStats_def computeStats_zeroResponse)

text \<open>
  C6, amended.  Let the runtime list \<open>containers\<close> (well-formed summaries) and let the
  scheduler deliver every started sampling result exactly once, in any order.  Then the
  cycle returns one record per container, in the order of the list; record \<open>i\<close> is that
  of container \<open>i\<close>, with the sample of container \<open>i\<close> merged in if it is running and
  statistics are requested.  If the sampling of a running container fails (the call
  returns an error, or decoding the response returns an error other than end of input),
  its record has CPU percent 0, memory percent 0, usage \<open>N/A\<close> and network counters 0.
  An empty response body is not taken as a failure: the record then has CPU percent 0,
  memory percent 0, network counters 0 and the usage \<open>0 B / 0 B\<close>.  Under any other
  scheduler and any other replies to the sampling calls, every container whose own reply
  is the same gets the same record: a failure changes the record of its container only.
\<close>

theorem C6_stats_merge:
  assumes sched: "\<forall>xs. mset (sched xs) = mset xs"
    and list: "ContainerList c \<lparr>optAll = False\<rparr> = Inr containers"
    and wf: "list_all wellFormed containers"
  shows "\<exists>result. ListContainersWithStats fb sched c inc = Inr result
    \<and> length result = length containers
    \<and> (\<forall>i<length containers.
          result ! i = finalInfo fb c inc (containers ! i)
          \<and> ID (result ! i) = take 12 (sID (containers ! i))
          \<and> State (result ! i) = sState (containers ! i))
    \<and> (\<forall>i<length containers.
          inc \<and> sState (containers ! i) = ''running''
          \<and> (ContainerStats c (sID (containers ! i)) = StatsError
               \<or> ContainerStats c (sID (containers ! i)) = DecodeError) \<longrightarrow>
          CPUPerc (result ! i) = 0 \<and> MemPerc (result ! i) = 0 \<and> MemUsage (result ! i) = ''N/A''
          \<and> NetRx (result ! i) = 0 \<and> NetTx (result ! i) = 0)
    \<and> (\<forall>i<length containers.
          inc \<and> sState (containers ! i) = ''running''
          \<and> ContainerStats c (sID (containers ! i)) = EmptyBody \<longrightarrow>
          CPUPerc (result ! i) = 0 \<and> MemPerc (result ! i) = 0
          \<and> MemUsage (result ! i) = ''0 B / 0 B''
          \<and> NetRx (result ! i) = 0 \<and> NetTx (result ! i) = 0)
    \<and> (\<forall>sched' c'. (\<forall>xs. mset (sched' xs) = mset xs)
          \<and> ContainerList c' \<lparr>optAll = False\<rparr> = Inr containers \<longrightarrow>
          (\<exists>result'. ListContainersWithStats fb sched' c' inc = Inr result'
             \<and> length result' = length containers
             \<and> (\<forall>i<length containers.
                   ContainerStats c' (sID (containers ! i)) = ContainerStats c (sID (containers ! i))
                   \<longrightarrow> result' ! i = result ! i)))"
proof -
  let ?result = "map (finalInfo fb c inc) containers"
  have run: "ListContainersWithStats fb sched c inc = Inr ?result"
    using sched list wf by (intro ListContainersWithStats_closed) simp_all
  have fields: "ID (finalInfo fb c inc ctr) = take 12 (sID ctr)
      \<and> State (finalInfo fb c inc ctr) = sState ctr" for ctr
    by (simp add: finalInfo_def applyStats_def baseInfo_def)
  have failed: "CPUPerc (finalInfo fb c inc ctr) = 0 \<and> MemPerc (finalInfo fb c inc ctr) = 0
      \<and> MemUsage (finalInfo fb c inc ctr) = ''N/A''
      \<and> NetRx (finalInfo fb c inc ctr) = 0 \<and> NetTx (finalInfo fb c inc ctr) = 0"
    if "ContainerStats c (sID ctr) = StatsError \<or> ContainerStats c (sID ctr) = DecodeError"
    for ctr
    using getContainerStats_failed [OF that, of fb]
    by (simp add: finalInfo_def applyStats_def baseInfo_def failedStats_def)
  have other: "\<exists>result'. ListContainersWithStats fb sched' c' inc = Inr result'
             \<and> length result' = length containers
             \<and> (\<forall>i<length containers.
                   ContainerStats c' (sID (containers ! i)) = ContainerStats c (sID (containers ! i))
                   \<longrightarrow> result' ! i = ?result ! i)"
    if "(\<forall>xs. mset (sched' xs) = mset xs)
          \<and> ContainerList c' \<lparr>optAll = False\<rparr> = Inr containers" for sched' c'
  proof -
    have "ListContainersWithStats fb sched' c' inc = Inr (map (finalInfo fb c' inc) containers)"
      using that wf by (intro ListContainersWithStats_closed) simp_all
    moreover have "finalInfo fb c' inc ctr = finalInfo fb c inc ctr"
      if "ContainerStats c' (sID ctr) = ContainerStats c (sID ctr)" for ctr
      using getContainerStats_cong [OF that, of fb] by (simp add: finalInfo_def)
    ultimately show ?thesis by simp
  qed
  have L: "length ?result = length containers" by simp
  have A: "\<forall>i<length containers.
          ?result ! i = finalInfo fb c inc (containers ! i)
          \<and> ID (?result ! i) = take 12 (sID (containers ! i))
          \<and> State (?result ! i) = sState (containers ! i)"
    using fields by simp
  have B: "\<forall>i<length containers.
          inc \<and> sState (containers ! i) = ''running''
          \<and> (ContainerStats c (sID (containers ! i)) = StatsError
               \<or> ContainerStats c (sID (containers ! i)) = DecodeError) \<longrightarrow>
          CPUPerc (?result ! i) = 0 \<and> MemPerc (?result ! i) = 0
          \<and> MemUsage (?result ! i) = ''N/A''
          \<and> NetRx (?result ! i) = 0 \<and> NetTx (?result ! i) = 0"
  proof (intro allI impI)
    fix i
    assume i: "i < length containers"
      and h: "inc \<and> sState (containers ! i) = ''running''
          \<and> (ContainerStats c (sID (containers ! i)) = StatsError
               \<or> ContainerStats c (sID (containers ! i)) = DecodeError)"
    then have "ContainerStats c (sID (containers ! i)) = StatsError
               \<or> ContainerStats c (sID (containers ! i)) = DecodeError"
      by blast
    from failed [OF this] i
    show "CPUPerc (?result ! i) = 0 \<and> MemPerc (?result ! i) = 0
          \<and> MemUsage (?result ! i) = ''N/A''
          \<and> NetRx (?result ! i) = 0 \<and> NetTx (?result ! i) = 0"
      by simp
  qed
  have E: "\<forall>i<length containers.
          inc \<and> sState (containers ! i) = ''running''
          \<and> ContainerStats c (sID (containers ! i)) = EmptyBody \<longrightarrow>
          CPUPerc (?result ! i) = 0 \<and> MemPerc (?result ! i) = 0
          \<and> MemUsage (?result ! i) = ''0 B / 0 B''
          \<and> NetRx (?result ! i) = 0 \<and> NetTx (?result ! i) = 0"
  proof (intro allI impI)
    fix i
    assume i: "i < length containers"
      and h: "inc \<and> sState (containers ! i) = ''running''
          \<and> ContainerStats c (sID (containers ! i)) = EmptyBody"
    then have "getContainerStats fb c (sID (containers ! i)) =
        \<lparr>cpuPerc = 0, memPerc = 0, memUsage = ''0 B / 0 B'', netRx = 0, netTx = 0\<rparr>"
      by (intro getContainerStats_empty) blast
    with i h
    show "CPUPerc (?result ! i) = 0 \<and> MemPerc (?result ! i) = 0
          \<and> MemUsage (?result ! i) = ''0 B / 0 B''
          \<and> NetRx (?result ! i) = 0 \<and> NetTx (?result ! i) = 0"
      by (simp add: finalInfo_def applyStats_def)
  qed
  have C: "\<forall>sched' c'. (\<forall>xs. mset (sched' xs) = mset xs)
          \<and> ContainerList c' \<lparr>optAll = False\<rparr> = Inr containers \<longrightarrow>
          (\<exists>result'. ListContainersWithStats fb sched' c' inc = Inr result'
             \<and> length result' = length containers
             \<and> (\<forall>i<length containers.
                   ContainerStats c' (sID (containers ! i)) = ContainerStats c (sID (containers ! i))
                   \<longrightarrow> result' ! i = ?result ! i))"
  proof (intro allI impI)
    fix sched' :: "(nat \<times> statsData) list \<Rightarrow> (nat \<times> statsData) list" and c' :: Runtime
    assume "(\<forall>xs. mset (sched' xs) = mset xs)
          \<and> ContainerList c' \<lparr>optAll = False\<rparr> = Inr containers"
    then show "\<exists>result'. ListContainersWithStats fb sched' c' inc = Inr result'
             \<and> length result' = length containers
             \<and> (\<forall>i<length containers.
                   ContainerStats c' (sID (containers ! i)) = ContainerStats c (sID (containers ! i))
                   \<longrightarrow> result' ! i = ?result ! i)"
      by (rule other)
  qed
  show ?thesis
    by (rule exI [of _ ?result]) (intro conjI run L A B E C)
qed


text \<open>
  An example runtime: three running containers; the first gives the sample with CPU delta
  40, system delta 100, two CPUs, 512 MiB used of 2 GiB; sampling the second one fails;
  the third answers with an empty body.
\<close>

definition demoSummaries :: "Summary list" where
  "demoSummaries =
     [\<lparr>sID = ''aaaaaaaaaaaa1111'', sNames = [''/shop_web''], sImage = ''nginx'',
       sState = ''running'', sStatus = ''Up 2 hours'', sCreated = 0, sLabels = []\<rparr>,
      \<lparr>sID = ''bbbbbbbbbbbb2222'', sNames = [''/shop_db''], sImage = ''postgres'',
       sState = ''running'', sStatus = ''Up 2 hours'', sCreated = 0, sLabels = []\<rparr>,
      \<lparr>sID = ''cccccccccccc3333'', sNames = [''/solo''], sImage = ''redis'',
       sState = ''running'', sStatus = ''Up 1 hour'', sCreated = 0, sLabels = []\<rparr>]"

definition demoSample :: statsResponse where
  "demoSample =
     \<lparr>CPUStats_TotalUsage = 140, CPUStats_SystemUsage = 300, CPUStats_OnlineCPUs = 2,
      PreCPUStats_TotalUsage = 100, PreCPUStats_SystemUsage = 200,
      MemoryStats_Usage = 536870912, MemoryStats_Limit = 2147483648,
      Networks = [(''eth0'', 10, 20), (''eth1'', 1, 2)]\<rparr>"

definition demoRuntime :: Runtime where
  "demoRuntime =
     \<lparr>ContainerList = (\<lambda>opts. if optAll opts then Inl ''not asked'' else Inr demoSummaries),
      ContainerStats =
        (\<lambda>containerID. if containerID = ''bbbbbbbbbbbb2222'' then StatsError
                       else if containerID = ''cccccccccccc3333'' then EmptyBody
                       else Decoded demoSample)\<rparr>"

lemma cpuPercOf_demoSample: "cpuPercOf demoSample = 80"
  by (simp add: cpuPercOf_def demoSample_def float64_def)

lemma memPercOf_demoSample: "memPercOf demoSample = 25"
  by (simp add: memPercOf_def demoSample_def float64_def)

text \<open>A stand-in for the float formatting in the examples.\<close>

definition demoSprintf1 :: "real \<Rightarrow> string" where
  "demoSprintf1 x = ''n''"

lemma computeStats_demoSample:
  "computeStats demoSprintf1 demoSample =
     \<lparr>cpuPerc = 80, memPerc = 25, memUsage = ''n MiB / n GiB'', netRx = 11, netTx = 22\<rparr>"
proof -
  have "unitLoop 524288 1024 0 = (1048576, 1)" "unitLoop 2097152 1024 0 = (1073741824, 2)"
    by simp_all
  then have "formatBytes demoSprintf1 536870912 = ''n MiB''"
    "formatBytes demoSprintf1 2147483648 = ''n GiB''"
    by (simp_all add: formatBytes_def demoSprintf1_def)
  then show ?thesis
    by (simp add: computeStats_def cpuPercOf_demoSample memPercOf_demoSample)
      (simp add: demoSample_def)
qed

text \<open>
  The amended C6 on three running containers, with the results arriving in reverse
  order: the first is sampled, the second fails to sample, the third answers with an
  empty body.
\<close>

theorem C6_stats_merge_witness:
  "(\<forall>xs :: (nat \<times> statsData) list. mset (rev xs) = mset xs)
   \<and> ContainerList demoRuntime \<lparr>optAll = False\<rparr> = Inr demoSummaries
   \<and> list_all wellFormed demoSummaries
   \<and> ContainerStats demoRuntime (sID (demoSummaries ! 1)) = StatsError
   \<and> ContainerStats demoRuntime (sID (demoSummaries ! 2)) = EmptyBody
   \<and> (\<exists>result. ListContainersWithStats demoSprintf1 rev demoRuntime True = Inr result
        \<and> map Name result = [''shop_web'', ''shop_db'', ''solo'']
        \<and> map CPUPerc result = [80, 0, 0]
        \<and> map MemPerc result = [25, 0, 0]
        \<and> map MemUsage result = [''n MiB / n GiB'', ''N/A'', ''0 B / 0 B'']
        \<and> map NetRx result = [11, 0, 0]
        \<and> map NetTx result = [22, 0, 0])"
proof -
  let ?fb = demoSprintf1
  have s: "\<forall>xs :: (nat \<times> statsData) list. mset (rev xs) = mset xs"
    by simp
  have l: "ContainerList demoRuntime \<lparr>optAll = False\<rparr> = Inr demoSummaries"
    by (simp add: demoRuntime_def)
  have w: "list_all wellFormed demoSummaries"
    by (simp add: demoSummaries_def wellFormed_def)
  have f: "ContainerStats demoRuntime (sID (demoSummaries ! 1)) = StatsError"
    and e: "ContainerStats demoRuntime (sID (demoSummaries ! 2)) = EmptyBody"
    by (simp_all add: demoRuntime_def demoSummaries_def)
  from C6_stats_merge [OF s l w, of ?fb True] obtain result where
    r: "ListContainersWithStats ?fb rev demoRuntime True = Inr result"
      "length result = length demoSummaries"
      "\<forall>i<length demoSummaries. result ! i = finalInfo ?fb demoRuntime True (demoSummaries ! i)"
    by blast
  have "result = map (finalInfo ?fb demoRuntime True) demoSummaries"
    using r(2,3) by (intro nth_equalityI) simp_all
  also have "\<dots> =
     [applyStats (baseInfo (demoSummaries ! 0))
        \<lparr>cpuPerc = 80, memPerc = 25, memUsage = ''n MiB / n GiB'', netRx = 11, netTx = 22\<rparr>,
      applyStats (baseInfo (demoSummaries ! 1)) failedStats,
      applyStats (baseInfo (demoSummaries ! 2))
        \<lparr>cpuPerc = 0, memPerc = 0, memUsage = ''0 B / 0 B'', netRx = 0, netTx = 0\<rparr>]"
    by (simp add: finalInfo_def getContainerStats_def demoRuntime_def demoSummaries_def
        computeStats_demoSample computeStats_zeroResponse)
  finally have fin: "map Name result = [''shop_web'', ''shop_db'', ''solo'']
        \<and> map CPUPerc result = [80, 0, 0]
        \<and> map MemPerc result = [25, 0, 0]
        \<and> map MemUsage result = [''n MiB / n GiB'', ''N/A'', ''0 B / 0 B'']
        \<and> map NetRx result = [11, 0, 0]
        \<and> map NetTx result = [22, 0, 0]"
    by (simp add: applyStats_def baseInfo_def failedStats_def demoSummaries_def TrimPrefix_def)
  show ?thesis
    by (intro conjI exI [of _ result] s l w f e r(1)) (simp_all add: fin)
qed

text \<open>
  C6 as stated fails for a malformed response that is an empty body: the decoder returns
  \<^verbatim>\<open>io.EOF\<close>, which the code lets through, so the third container of the example gets the
  usage \<open>0 B / 0 B\<close> and not the placeholder \<open>N/A\<close>.
\<close>

theorem C6_empty_body_counterexample:
  "sState (demoSummaries ! 2) = ''running''
   \<and> ContainerStats demoRuntime (sID (demoSummaries ! 2)) = EmptyBody
   \<and> getContainerStats demoSprintf1 demoRuntime (sID (demoSummaries ! 2)) =
        \<lparr>cpuPerc = 0, memPerc = 0, memUsage = ''0 B / 0 B'', netRx = 0, netTx = 0\<rparr>
   \<and> map MemUsage (map (finalInfo demoSprintf1 demoRuntime True) demoSummaries) =
        [''n MiB / n GiB'', ''N/A'', ''0 B / 0 B'']
   \<and> ListContainersWithStats demoSprintf1 rev demoRuntime True =
        Inr (map (finalInfo demoSprintf1 demoRuntime True) demoSummaries)
   \<and> ''0 B / 0 B'' \<noteq> ''N/A''"
proof -
  have "ListContainersWithStats demoSprintf1 rev demoRuntime True =
        Inr (map (finalInfo demoSprintf1 demoRuntime True) demoSummaries)"
    by (rule ListContainersWithStats_closed)
      (simp_all add: demoRuntime_def demoSummaries_def wellFormed_def)
  moreover have "map MemUsage (map (finalInfo demoSprintf1 demoRuntime True) demoSummaries) =
        [''n MiB / n GiB'', ''N/A'', ''0 B / 0 B'']"
    by (simp add: finalInfo_def getContainerStats_def demoRuntime_def demoSummaries_def
        computeStats_demoSample computeStats_zeroResponse applyStats_def failedStats_def)
  moreover have "getContainerStats demoSprintf1 demoRuntime (sID (demoSummaries ! 2)) =
        \<lparr>cpuPerc = 0, memPerc = 0, memUsage = ''0 B / 0 B'', netRx = 0, netTx = 0\<rparr>"
    by (simp add: getContainerStats_def demoRuntime_def demoSummaries_def
        computeStats_zeroResponse)
  ultimately show ?thesis
    by (simp add: demoRuntime_def demoSummaries_def)
qed

subsection \<open>CPU percent\<close>

lemma float64_nonneg: "0 \<le> float64 x"
  unfolding float64_def by (rule of_nat_0_le_iff)

lemma cpuPercOf_nonneg: "0 \<le> cpuPercOf v"
  by (auto simp: cpuPercOf_def Let_def float64_nonneg
      intro!: mult_nonneg_nonneg divide_nonneg_nonneg)

lemma cpuPercOf_no_wrap:
  assumes "PreCPUStats_TotalUsage v \<le> CPUStats_TotalUsage v"
    and "PreCPUStats_SystemUsage v \<le> CPUStats_SystemUsage v"
  shows "cpuPercOf v =
     (let cpuDelta = float64 (CPUStats_TotalUsage v) - float64 (PreCPUStats_TotalUsage v);
          systemDelta = float64 (CPUStats_SystemUsage v) - float64 (PreCPUStats_SystemUsage v)
      in if systemDelta > 0 \<and> cpuDelta > 0
         then (cpuDelta / systemDelta) * float64 (CPUStats_OnlineCPUs v) * 100 else 0)"
proof -
  have "real (unat (a - b)) = real (unat a) - real (unat b)" if "b \<le> a" for a b :: "64 word"
    using that by (simp add: unat_sub word_le_nat_alt)
  with assms show ?thesis
    by (simp add: cpuPercOf_def float64_def Let_def)
qed

text \<open>A sample whose total CPU counter is below the previous one.\<close>

definition resetSample :: statsResponse where
  "resetSample =
     \<lparr>CPUStats_TotalUsage = 60, CPUStats_SystemUsage = 300, CPUStats_OnlineCPUs = 2,
      PreCPUStats_TotalUsage = 100, PreCPUStats_SystemUsage = 200,
      MemoryStats_Usage = 50, MemoryStats_Limit = 200, Networks = []\<rparr>"

text \<open>
  C2 says that the CPU percent is 0 when the current total usage is below the previous
  one.  The code subtracts the two \<^verbatim>\<open>uint64\<close> counters before the conversion to a float,
  so the difference wraps around instead of being negative and the test
  \<^verbatim>\<open>cpuDelta > 0.0\<close> lets it through: for a current total of 60 after a previous total of
  100 (system delta 100, two CPUs) the difference is \<open>2\<^sup>6\<^sup>4 - 40\<close> and the percent is not
  0.
\<close>

theorem C2_cpu_delta_wraps:
  "unat (CPUStats_TotalUsage resetSample) < unat (PreCPUStats_TotalUsage resetSample)
   \<and> unat (CPUStats_TotalUsage resetSample - PreCPUStats_TotalUsage resetSample) = 2 ^ 64 - 40
   \<and> cpuPercOf resetSample = 2 * (2 ^ 64 - 40)
   \<and> cpuPercOf resetSample \<noteq> 0"
  by (simp add: cpuPercOf_def resetSample_def float64_def)

subsection \<open>Only running containers are asked for\<close>

text \<open>
  The earlier \<^verbatim>\<open>ListContainers\<close> (the second copy of the client in
  \<^verbatim>\<open>docker/client.go\<close>): the same request and the same records, without statistics.
  Its \<^verbatim>\<open>ContainerInfo\<close> has no network counters; they are 0 here.
\<close>

definition ListContainers_legacy :: "Runtime \<Rightarrow> error + ContainerInfo list" where
  "ListContainers_legacy c =
     (case ContainerList c \<lparr>optAll = False\<rparr> of
        Inl err \<Rightarrow> Inl (ListError err)
      | Inr containers \<Rightarrow> initialInfos containers)"

lemma State_applyStats [simp]: "State (applyStats info st) = State info"
  by (simp add: applyStats_def)

lemma map_State_mergeStats: "map State (mergeStats result st) = map State result"
proof (cases "fst st < length result")
  case True
  then show ?thesis
    by (simp add: mergeStats_def map_update list_update_same_conv)
next
  case False
  then show ?thesis
    by (simp add: mergeStats_def list_update_beyond)
qed

lemma map_State_foldl_mergeStats: "map State (foldl mergeStats result arr) = map State result"
  by (induction arr arbitrary: result) (simp_all add: map_State_mergeStats)

lemma initialInfos_State:
  "initialInfos containers = Inr result \<Longrightarrow> map State result = map sState containers"
proof (induction containers arbitrary: result)
  case Nil
  then show ?case by simp
next
  case (Cons ctr rest)
  then show ?case
    by (auto simp: initialInfo_def baseInfo_def split: sum.splits if_splits)
qed

lemma ListContainersWithStats_State:
  assumes "ContainerList c \<lparr>optAll = False\<rparr> = Inr containers"
    and "ListContainersWithStats fb sched c inc = Inr result"
  shows "map State result = map sState containers"
  using assms
  by (auto simp: ListContainersWithStats_def map_State_foldl_mergeStats
      dest: initialInfos_State split: sum.splits if_splits)

lemma ListContainers_legacy_State:
  assumes "ContainerList c \<lparr>optAll = False\<rparr> = Inr containers"
    and "ListContainers_legacy c = Inr result"
  shows "map State result = map sState containers"
  using assms by (auto simp: ListContainers_legacy_def dest: initialInfos_State)

text \<open>The container nodes of a built tree carry records of the list it was built from.\<close>

lemma BuildTree_containers:
  assumes "p \<in> set (Children (Root (BuildTree cs)))" "n \<in> set (Children p)"
  shows "\<exists>r \<in> set cs. Container n = Some r \<and> Type n = NodeTypeContainer"
proof -
  from assms(1) obtain k where "p = projectNode (foldl addToProject [] cs) k"
    by (auto simp: Root_BuildTree)
  with assms(2) obtain r where "r \<in> set (lookupProject (foldl addToProject [] cs) k)"
      "n = containerNode r"
    by (auto simp: projectNode_def)
  then show ?thesis
    by (auto simp: lookupProject_foldl lookupProject_Nil containerNode_def)
qed

text \<open>
  Every record of a list, and every container node of the tree built from it, is in the
  state \<open>running\<close>.
\<close>

definition allRunning :: "ContainerInfo list \<Rightarrow> bool" where
  "allRunning result \<longleftrightarrow>
     list_all (\<lambda>r. State r = ''running'') result
     \<and> list_all (\<lambda>p. list_all (\<lambda>n. case Container n of
                                      None \<Rightarrow> False
                                    | Some r \<Rightarrow> State r = ''running'') (Children p))
         (Children (Root (BuildTree result)))"

lemma allRunning_states:
  assumes "map State result = map sState containers"
    and "list_all (\<lambda>s. sState s = ''running'') containers"
  shows "allRunning result"
proof -
  have "list_all (\<lambda>s. s = ''running'') (map sState containers)"
    using assms(2) by (simp add: list_all_iff)
  then have "list_all (\<lambda>s. s = ''running'') (map State result)"
    by (simp add: assms(1))
  then have st: "\<forall>r \<in> set result. State r = ''running''"
    by (simp add: list_all_iff)
  then show ?thesis
    unfolding allRunning_def list_all_iff
    using BuildTree_containers [of _ result] by fastforce
qed

text \<open>A record is that of a container node of a tree.\<close>

definition inTree :: "ContainerInfo \<Rightarrow> Tree \<Rightarrow> bool" where
  "inTree r t \<longleftrightarrow>
     list_ex (\<lambda>p. list_ex (\<lambda>n. Container n = Some r) (Children p)) (Children (Root t))"

lemma inTree_BuildTree: "inTree r (BuildTree cs) \<longleftrightarrow> r \<in> set cs"
proof
  assume "inTree r (BuildTree cs)"
  then obtain p n where "p \<in> set (Children (Root (BuildTree cs)))" "n \<in> set (Children p)"
      "Container n = Some r"
    by (auto simp: inTree_def list_ex_iff)
  with BuildTree_containers [of p cs n] show "r \<in> set cs"
    by auto
next
  assume r: "r \<in> set cs"
  let ?al = "foldl addToProject [] cs"
  let ?k = "ParseProjectName (Name r)"
  from r have "?k \<in> set (projectNamesOf cs)"
    by (simp add: projectNamesOf_eq)
  then have "projectNode ?al ?k \<in> set (Children (Root (BuildTree cs)))"
    by (simp add: Root_BuildTree)
  moreover from r have "r \<in> set (lookupProject ?al ?k)"
    by (simp add: lookupProject_foldl lookupProject_Nil)
  then have "containerNode r \<in> set (Children (projectNode ?al ?k))"
    by (simp add: projectNode_def)
  moreover have "Container (containerNode r) = Some r"
    by (simp add: containerNode_def)
  ultimately show "inTree r (BuildTree cs)"
    unfolding inTree_def list_ex_iff by blast
qed

text \<open>
  C10, amended.  Every listing operation asks the runtime with \<^verbatim>\<open>All: false\<close> and with
  nothing else: two runtimes that answer the running-only request (and the sampling
  calls) alike give the same result, whatever they would answer to a request for all
  containers.  The operations filter nothing: the result has one record for every
  container in the runtime's answer, in its order and with the state the runtime gives,
  and the container nodes of the tree built from a list carry exactly the records of
  that list.  So a container that is not running is listed exactly when the runtime
  returns it for the running-only request; when the runtime returns running containers
  only, every returned record has the state \<open>running\<close>, and so has the record of every
  container node of the tree.
\<close>

theorem C10_running_only:
  "(ContainerList c \<lparr>optAll = False\<rparr> = ContainerList c' \<lparr>optAll = False\<rparr>
      \<and> ContainerStats c = ContainerStats c' \<longrightarrow>
      ListContainersWithStats fb sched c inc = ListContainersWithStats fb sched c' inc
      \<and> ListContainers fb sched c = ListContainers fb sched c'
      \<and> ListContainers_legacy c = ListContainers_legacy c')
   \<and> (ContainerList c \<lparr>optAll = False\<rparr> = Inr containers \<longrightarrow>
      (ListContainersWithStats fb sched c inc = Inr result \<longrightarrow>
         map State result = map sState containers)
      \<and> (ListContainers fb sched c = Inr result \<longrightarrow>
         map State result = map sState containers)
      \<and> (ListContainers_legacy c = Inr result \<longrightarrow>
         map State result = map sState containers))
   \<and> (\<forall>r. inTree r (BuildTree result) \<longleftrightarrow> r \<in> set result)
   \<and> (ContainerList c \<lparr>optAll = False\<rparr> = Inr containers
        \<and> list_all (\<lambda>s. sState s = ''running'') containers \<longrightarrow>
      (ListContainersWithStats fb sched c inc = Inr result \<longrightarrow> allRunning result)
      \<and> (ListContainers fb sched c = Inr result \<longrightarrow> allRunning result)
      \<and> (ListContainers_legacy c = Inr result \<longrightarrow> allRunning result))"
proof -
  have 1: "ListContainersWithStats fb sched c inc = ListContainersWithStats fb sched c' inc
      \<and> ListContainers fb sched c = ListContainers fb sched c'
      \<and> ListContainers_legacy c = ListContainers_legacy c'"
    if a: "ContainerList c \<lparr>optAll = False\<rparr> = ContainerList c' \<lparr>optAll = False\<rparr>
      \<and> ContainerStats c = ContainerStats c'"
  proof -
    from a have "getContainerStats fb c = getContainerStats fb c'"
      by (auto simp: getContainerStats_def fun_eq_iff)
    then have T: "statsTasks fb c = statsTasks fb c'"
      by (simp add: statsTasks_def fun_eq_iff)
    from a have L: "ContainerList c \<lparr>optAll = False\<rparr> = ContainerList c' \<lparr>optAll = False\<rparr>"
      by blast
    have "ListContainersWithStats fb sched c inc = ListContainersWithStats fb sched c' inc"
      unfolding ListContainersWithStats_def T L by (rule refl)
    moreover have "ListContainers fb sched c = ListContainers fb sched c'"
      unfolding ListContainers_def ListContainersWithStats_def T L by (rule refl)
    moreover from a have "ListContainers_legacy c = ListContainers_legacy c'"
      by (simp add: ListContainers_legacy_def)
    ultimately show ?thesis by blast
  qed
  have 2: "(ListContainersWithStats fb sched c inc = Inr result \<longrightarrow>
         map State result = map sState containers)
      \<and> (ListContainers fb sched c = Inr result \<longrightarrow>
         map State result = map sState containers)
      \<and> (ListContainers_legacy c = Inr result \<longrightarrow>
         map State result = map sState containers)"
    if a: "ContainerList c \<lparr>optAll = False\<rparr> = Inr containers"
    using ListContainersWithStats_State [OF a] ListContainers_legacy_State [OF a]
    unfolding ListContainers_def by blast
  have 3: "\<forall>r. inTree r (BuildTree result) \<longleftrightarrow> r \<in> set result"
    by (simp add: inTree_BuildTree)
  have 4: "(ListContainersWithStats fb sched c inc = Inr result \<longrightarrow> allRunning result)
      \<and> (ListContainers fb sched c = Inr result \<longrightarrow> allRunning result)
      \<and> (ListContainers_legacy c = Inr result \<longrightarrow> allRunning result)"
    if a: "ContainerList c \<lparr>optAll = False\<rparr> = Inr containers
        \<and> list_all (\<lambda>s. sState s = ''running'') containers"
  proof -
    from a have l: "ContainerList c \<lparr>optAll = False\<rparr> = Inr containers"
      and r: "list_all (\<lambda>s. sState s = ''running'') containers"
      by blast+
    from 2 [OF l] allRunning_states [OF _ r] show ?thesis
      by blast
  qed
  from 1 2 3 4 show ?thesis
    by blast
qed

text \<open>The example runtime with another answer to the request for all containers.\<close>

definition demoRuntimeAll :: Runtime where
  "demoRuntimeAll =
     \<lparr>ContainerList = (\<lambda>opts. if optAll opts then Inr [] else Inr demoSummaries),
      ContainerStats = ContainerStats demoRuntime\<rparr>"

text \<open>
  The amended C10 on two runtimes that differ only in their answer to the request for all
  containers.
\<close>

theorem C10_running_only_witness:
  "ContainerList demoRuntime \<lparr>optAll = False\<rparr> = ContainerList demoRuntimeAll \<lparr>optAll = False\<rparr>
   \<and> ContainerStats demoRuntime = ContainerStats demoRuntimeAll
   \<and> ContainerList demoRuntime \<lparr>optAll = True\<rparr> \<noteq> ContainerList demoRuntimeAll \<lparr>optAll = True\<rparr>
   \<and> ListContainers demoSprintf1 rev demoRuntime = ListContainers demoSprintf1 rev demoRuntimeAll
   \<and> ContainerList demoRuntime \<lparr>optAll = False\<rparr> = Inr demoSummaries
   \<and> list_all (\<lambda>s. sState s = ''running'') demoSummaries
   \<and> ListContainers_legacy demoRuntime = Inr (map baseInfo demoSummaries)
   \<and> map State (map baseInfo demoSummaries) = map sState demoSummaries
   \<and> baseInfo (demoSummaries ! 2) \<in> set (map baseInfo demoSummaries)
   \<and> inTree (baseInfo (demoSummaries ! 2)) (BuildTree (map baseInfo demoSummaries))
   \<and> allRunning (map baseInfo demoSummaries)"
proof -
  have a: "ContainerList demoRuntime \<lparr>optAll = False\<rparr> =
        ContainerList demoRuntimeAll \<lparr>optAll = False\<rparr>
      \<and> ContainerStats demoRuntime = ContainerStats demoRuntimeAll"
    by (simp add: demoRuntime_def demoRuntimeAll_def)
  have b: "ContainerList demoRuntime \<lparr>optAll = True\<rparr> \<noteq>
      ContainerList demoRuntimeAll \<lparr>optAll = True\<rparr>"
    by (simp add: demoRuntime_def demoRuntimeAll_def)
  have l: "ContainerList demoRuntime \<lparr>optAll = False\<rparr> = Inr demoSummaries
      \<and> list_all (\<lambda>s. sState s = ''running'') demoSummaries"
    by (simp add: demoRuntime_def demoSummaries_def)
  have leg: "ListContainers_legacy demoRuntime = Inr (map baseInfo demoSummaries)"
    by (simp add: ListContainers_legacy_def demoRuntime_def demoSummaries_def initialInfo_def)
  have m: "baseInfo (demoSummaries ! 2) \<in> set (map baseInfo demoSummaries)"
    by (simp add: demoSummaries_def)
  note inst = C10_running_only [of demoRuntime demoRuntimeAll demoSprintf1 rev True
      demoSummaries "map baseInfo demoSummaries"]
  from inst a have 1: "ListContainers demoSprintf1 rev demoRuntime =
      ListContainers demoSprintf1 rev demoRuntimeAll"
    by blast
  from inst l leg have 2: "map State (map baseInfo demoSummaries) = map sState demoSummaries"
    by blast
  from inst m have 3: "inTree (baseInfo (demoSummaries ! 2)) (BuildTree (map baseInfo demoSummaries))"
    by blast
  from inst l leg have 4: "allRunning (map baseInfo demoSummaries)"
    by blast
  from a b l leg m 1 2 3 4 show ?thesis
    by blast
qed

text \<open>
  A runtime that answers the running-only request with a paused container, as Docker
  does.
\<close>

definition pausedSummary :: Summary where
  "pausedSummary =
     \<lparr>sID = ''dddddddddddd4444'', sNames = [''/cache''], sImage = ''redis'',
      sState = ''paused'', sStatus = ''Up 3 hours (Paused)'', sCreated = 0, sLabels = []\<rparr>"

definition pausedRuntime :: Runtime where
  "pausedRuntime =
     \<lparr>ContainerList = (\<lambda>opts. Inr [pausedSummary]),
      ContainerStats = (\<lambda>containerID. Decoded demoSample)\<rparr>"

text \<open>
  C10 as stated fails: the code copies the state that the runtime reports and filters
  nothing, so the paused container is in the returned list and in the tree.
\<close>

theorem C10_paused_counterexample:
  "ContainerList pausedRuntime \<lparr>optAll = False\<rparr> = Inr [pausedSummary]
   \<and> sState pausedSummary = ''paused''
   \<and> ListContainersWithStats demoSprintf1 rev pausedRuntime True = Inr [baseInfo pausedSummary]
   \<and> ListContainersWithStats demoSprintf1 rev pausedRuntime False = Inr [baseInfo pausedSummary]
   \<and> ListContainers demoSprintf1 rev pausedRuntime = Inr [baseInfo pausedSummary]
   \<and> ListContainers_legacy pausedRuntime = Inr [baseInfo pausedSummary]
   \<and> State (baseInfo pausedSummary) = ''paused''
   \<and> State (baseInfo pausedSummary) \<noteq> ''running''
   \<and> Name (baseInfo pausedSummary) = ''cache''
   \<and> inTree (baseInfo pausedSummary) (BuildTree [baseInfo pausedSummary])"
proof -
  have l: "ContainerList pausedRuntime \<lparr>optAll = False\<rparr> = Inr [pausedSummary]"
    by (simp add: pausedRuntime_def)
  have w: "list_all wellFormed [pausedSummary]"
    by (simp add: wellFormed_def pausedSummary_def)
  have s: "\<And>xs :: (nat \<times> statsData) list. mset (rev xs) = mset xs"
    by simp
  have f: "finalInfo demoSprintf1 pausedRuntime inc pausedSummary = baseInfo pausedSummary" for inc
    by (simp add: finalInfo_def pausedSummary_def)
  have 1: "ListContainersWithStats demoSprintf1 rev pausedRuntime inc = Inr [baseInfo pausedSummary]"
    for inc
    using ListContainersWithStats_closed [OF s l w, of demoSprintf1 inc] by (simp add: f)
  have 2: "ListContainers_legacy pausedRuntime = Inr [baseInfo pausedSummary]"
    by (simp add: ListContainers_legacy_def l initialInfo_def pausedSummary_def)
  have 3: "State (baseInfo pausedSummary) = ''paused''" "Name (baseInfo pausedSummary) = ''cache''"
    by (simp_all add: baseInfo_def pausedSummary_def TrimPrefix_def)
  have 4: "inTree (baseInfo pausedSummary) (BuildTree [baseInfo pausedSummary])"
    by (simp add: inTree_BuildTree)
  from l 1 2 3 4 show ?thesis
    by (simp add: ListContainers_def pausedSummary_def)
qed

subsection \<open>The command line (\<^verbatim>\<open>main\<close>)\<close>

text \<open>
  The flags, what the process writes, and how it ends.  \<^verbatim>\<open>ui.PrintSnapshot\<close> writes the
  table of a tree; it is one output event here.  The interactive program is its result:
  the error of \<^verbatim>\<open>p.Run()\<close>, if any.  A Go process that panics ends with status 2.
\<close>

record Flags =
  flagList :: bool
  flagL :: bool
  flagVersion :: bool

datatype Output = Println string | Printf string | PrintSnapshot Tree

record Exit =
  printed :: "Output list"
  exitStatus :: int

definition main ::
  "Flags \<Rightarrow> string + Runtime \<Rightarrow> (real \<Rightarrow> string) \<Rightarrow>
   ((nat \<times> statsData) list \<Rightarrow> (nat \<times> statsData) list) \<Rightarrow> string option \<Rightarrow> Exit" where
  "main flags newClient sprintf1 sched runErr =
     (if flagVersion flags
      then \<lparr>printed = [Println ''dtop v0.1.0'',
                       Println ''Docker container monitor - https://github.com/ekinertac/dtop''],
            exitStatus = 0\<rparr>
      else
        case newClient of
          Inl err \<Rightarrow>
            \<lparr>printed = [Printf (''Failed to create Docker client: '' @ err @ [CHR 0x0A])],
             exitStatus = 1\<rparr>
        | Inr dockerClient \<Rightarrow>
            if flagList flags \<or> flagL flags
            then
              (case ListContainers sprintf1 sched dockerClient of
                 Inl (ListError err) \<Rightarrow>
                   \<lparr>printed = [Printf (''Failed to list containers: '' @ err @ [CHR 0x0A])],
                    exitStatus = 1\<rparr>
               | Inl IndexPanic \<Rightarrow> \<lparr>printed = [], exitStatus = 2\<rparr>
               | Inr containers \<Rightarrow>
                   \<lparr>printed = [PrintSnapshot (BuildTree containers)], exitStatus = 0\<rparr>)
            else
              (case runErr of
                 Some err \<Rightarrow>
                   \<lparr>printed = [Printf (''Error running program: '' @ err @ [CHR 0x0A])],
                    exitStatus = 1\<rparr>
               | None \<Rightarrow> \<lparr>printed = [], exitStatus = 0\<rparr>))"

subsection \<open>A listing failure in the interactive program\<close>

text \<open>
  The messages that the refresh command of the \<^verbatim>\<open>ui\<close> package produces
  (\<^verbatim>\<open>refreshContainersWithStats\<close>: \<^verbatim>\<open>errMsg\<close> when the listing returns an error,
  \<^verbatim>\<open>containersMsg\<close> otherwise; none when the listing panics), the commands that
  \<^verbatim>\<open>Update\<close> returns (\<^verbatim>\<open>nil\<close> or \<^verbatim>\<open>tea.Quit\<close>), and the case of \<^verbatim>\<open>Update\<close> for
  \<^verbatim>\<open>errMsg\<close>: the error is stored in the field \<^verbatim>\<open>err\<close> of the model (\<open>modelErr\<close> here)
  and no command is returned.
\<close>

datatype Msg = containersMsg "ContainerInfo list" | errMsg string

datatype Cmd = CmdNil | CmdQuit

record ErrModel = Model +
  modelErr :: "string option"

definition refreshContainersWithStats ::
  "(real \<Rightarrow> string) \<Rightarrow> ((nat \<times> statsData) list \<Rightarrow> (nat \<times> statsData) list) \<Rightarrow>
   Runtime \<Rightarrow> bool \<Rightarrow> Msg option" where
  "refreshContainersWithStats sprintf1 sched dockerClient includeStats =
     (case ListContainersWithStats sprintf1 sched dockerClient includeStats of
        Inl (ListError e) \<Rightarrow> Some (errMsg e)
      | Inl IndexPanic \<Rightarrow> None
      | Inr containers \<Rightarrow> Some (containersMsg containers))"

definition Update_errMsg :: "string \<Rightarrow> ErrModel \<Rightarrow> ErrModel \<times> Cmd" where
  "Update_errMsg e m = (m\<lparr>modelErr := Some e\<rparr>, CmdNil)"

text \<open>
  C9, amended.  With the version flag the process prints the version lines and ends with
  status 0.  Otherwise, if the client cannot be created it ends with status 1; in list
  mode (either list flag) it prints the table of the tree built from the listed
  containers, once, and ends with status 0 when the listing succeeds, and ends with status
  1 and prints no table when the listing fails.  A runtime that cannot be reached does not
  make the creation of the client fail; it makes the listing fail.  In the interactive
  mode such a failure becomes an \<^verbatim>\<open>errMsg\<close>, which \<^verbatim>\<open>Update\<close> stores in the model
  without quitting, and the exit status is that of the interactive program: 0 when it
  ends without an error, whatever the runtime answers.
\<close>

theorem C9_cli:
  "(flagVersion flags \<longrightarrow>
      main flags newClient fb sched runErr =
        \<lparr>printed = [Println ''dtop v0.1.0'',
                   Println ''Docker container monitor - https://github.com/ekinertac/dtop''],
         exitStatus = 0\<rparr>)
   \<and> (\<not> flagVersion flags \<and> newClient = Inl err \<longrightarrow>
        exitStatus (main flags newClient fb sched runErr) = 1
        \<and> exitStatus (main flags newClient fb sched runErr) \<noteq> 0)
   \<and> (\<not> flagVersion flags \<and> newClient = Inr c \<and> (flagList flags \<or> flagL flags)
        \<and> ListContainers fb sched c = Inr containers \<longrightarrow>
        main flags newClient fb sched runErr =
          \<lparr>printed = [PrintSnapshot (BuildTree containers)], exitStatus = 0\<rparr>)
   \<and> (\<not> flagVersion flags \<and> newClient = Inr c \<and> (flagList flags \<or> flagL flags)
        \<and> ListContainers fb sched c = Inl (ListError err) \<longrightarrow>
        exitStatus (main flags newClient fb sched runErr) = 1
        \<and> (\<forall>out \<in> set (printed (main flags newClient fb sched runErr)).
              \<forall>t. out \<noteq> PrintSnapshot t))
   \<and> (\<not> flagVersion flags \<and> newClient = Inr c \<and> (flagList flags \<or> flagL flags)
        \<and> ContainerList c \<lparr>optAll = False\<rparr> = Inl err \<longrightarrow>
        exitStatus (main flags newClient fb sched runErr) = 1)
   \<and> (\<not> flagVersion flags \<and> newClient = Inr c \<and> \<not> flagList flags \<and> \<not> flagL flags \<longrightarrow>
        exitStatus (main flags newClient fb sched runErr) =
          (case runErr of None \<Rightarrow> 0 | Some e \<Rightarrow> 1))
   \<and> (ContainerList c \<lparr>optAll = False\<rparr> = Inl err \<longrightarrow>
        refreshContainersWithStats fb sched c inc = Some (errMsg err)
        \<and> snd (Update_errMsg err m) = CmdNil
        \<and> modelErr (fst (Update_errMsg err m)) = Some err)"
  by (auto simp: main_def ListContainers_def ListContainersWithStats_def
      refreshContainersWithStats_def Update_errMsg_def split: option.splits)

text \<open>
  A runtime that cannot be reached: the client is created, and every request to list
  fails.
\<close>

definition unreachableRuntime :: Runtime where
  "unreachableRuntime =
     \<lparr>ContainerList = (\<lambda>opts. Inl ''Cannot connect to the Docker daemon''),
      ContainerStats = (\<lambda>containerID. StatsError)\<rparr>"

definition interactive :: Flags where
  "interactive = \<lparr>flagList = False, flagL = False, flagVersion = False\<rparr>"

definition emptyModel :: ErrModel where
  "emptyModel =
     \<lparr>tree = Some \<lparr>Root = TreeNode NodeTypeProject ''root'' None [] True, Flat = [],
                     Selected = 0\<rparr>,
      height = 0, viewportTop = 0, modelErr = None\<rparr>"

text \<open>
  The amended C9 with the version flag, with a failing client, in list mode on three
  containers, and in the interactive mode with a runtime that cannot be reached.
\<close>

theorem C9_cli_witness:
  "flagVersion \<lparr>flagList = False, flagL = False, flagVersion = True\<rparr>
   \<and> exitStatus (main \<lparr>flagList = False, flagL = False, flagVersion = True\<rparr>
         (Inl ''no socket'') demoSprintf1 rev None) = 0
   \<and> \<not> flagVersion \<lparr>flagList = False, flagL = True, flagVersion = False\<rparr>
   \<and> exitStatus (main \<lparr>flagList = False, flagL = True, flagVersion = False\<rparr>
         (Inl ''no socket'') demoSprintf1 rev None) = 1
   \<and> ListContainers demoSprintf1 rev demoRuntime =
        Inr (map (finalInfo demoSprintf1 demoRuntime True) demoSummaries)
   \<and> main \<lparr>flagList = False, flagL = True, flagVersion = False\<rparr>
         (Inr demoRuntime) demoSprintf1 rev None =
        \<lparr>printed = [PrintSnapshot (BuildTree
             (map (finalInfo demoSprintf1 demoRuntime True) demoSummaries))],
         exitStatus = 0\<rparr>
   \<and> ContainerList unreachableRuntime \<lparr>optAll = False\<rparr> =
        Inl ''Cannot connect to the Docker daemon''
   \<and> exitStatus (main \<lparr>flagList = False, flagL = True, flagVersion = False\<rparr>
         (Inr unreachableRuntime) demoSprintf1 rev None) = 1
   \<and> exitStatus (main interactive (Inr unreachableRuntime) demoSprintf1 rev
         (Some ''terminal closed'')) = 1
   \<and> refreshContainersWithStats demoSprintf1 rev unreachableRuntime False =
        Some (errMsg ''Cannot connect to the Docker daemon'')
   \<and> modelErr (fst (Update_errMsg ''Cannot connect to the Docker daemon'' emptyModel)) =
        Some ''Cannot connect to the Docker daemon''"
proof -
  let ?v = "\<lparr>flagList = False, flagL = False, flagVersion = True\<rparr>"
  let ?l = "\<lparr>flagList = False, flagL = True, flagVersion = False\<rparr>"
  let ?fb = demoSprintf1
  let ?cs = "map (finalInfo ?fb demoRuntime True) demoSummaries"
  let ?e = "''Cannot connect to the Docker daemon''"
  have lc: "ListContainers ?fb rev demoRuntime = Inr ?cs"
    unfolding ListContainers_def
    by (rule ListContainersWithStats_closed)
      (simp_all add: demoRuntime_def demoSummaries_def wellFormed_def)
  have u: "ContainerList unreachableRuntime \<lparr>optAll = False\<rparr> = Inl ?e"
    by (simp add: unreachableRuntime_def)
  have 1: "exitStatus (main ?v (Inl ''no socket'') ?fb rev None) = 0"
    using C9_cli [of ?v "Inl ''no socket''" ?fb rev None] by simp
  have 2: "exitStatus (main ?l (Inl ''no socket'') ?fb rev None) = 1"
    using C9_cli [of ?l "Inl ''no socket''" ?fb rev None "''no socket''"] by simp
  have 3: "main ?l (Inr demoRuntime) ?fb rev None =
      \<lparr>printed = [PrintSnapshot (BuildTree ?cs)], exitStatus = 0\<rparr>"
    using C9_cli [of ?l "Inr demoRuntime" ?fb rev None _ demoRuntime ?cs] lc by simp
  have 4: "exitStatus (main ?l (Inr unreachableRuntime) ?fb rev None) = 1"
    using C9_cli [of ?l "Inr unreachableRuntime" ?fb rev None ?e unreachableRuntime] u
    by simp
  have 5: "exitStatus (main interactive (Inr unreachableRuntime) ?fb rev
      (Some ''terminal closed'')) = 1"
    using C9_cli [of interactive "Inr unreachableRuntime" ?fb rev "Some ''terminal closed''"
        _ unreachableRuntime]
    by (simp add: interactive_def)
  have 6: "refreshContainersWithStats ?fb rev unreachableRuntime False = Some (errMsg ?e)
      \<and> modelErr (fst (Update_errMsg ?e emptyModel)) = Some ?e"
    using C9_cli [of _ _ ?fb rev _ ?e unreachableRuntime _ False emptyModel] u
    by blast
  show ?thesis
    using 1 2 3 4 5 6 lc u by simp
qed

text \<open>
  C9 as stated fails in the interactive mode: with a runtime that cannot be reached the
  client is created, the first listing fails, the failure is stored in the model and no
  quit is issued, and when the interactive program ends without an error of its own the
  process ends with status 0.
\<close>

theorem C9_unreachable_counterexample:
  "ContainerList unreachableRuntime \<lparr>optAll = False\<rparr> =
     Inl ''Cannot connect to the Docker daemon''
   \<and> ContainerList unreachableRuntime \<lparr>optAll = True\<rparr> =
     Inl ''Cannot connect to the Docker daemon''
   \<and> refreshContainersWithStats demoSprintf1 rev unreachableRuntime False =
        Some (errMsg ''Cannot connect to the Docker daemon'')
   \<and> refreshContainersWithStats demoSprintf1 rev unreachableRuntime True =
        Some (errMsg ''Cannot connect to the Docker daemon'')
   \<and> Update_errMsg ''Cannot connect to the Docker daemon'' emptyModel =
        (emptyModel\<lparr>modelErr := Some ''Cannot connect to the Docker daemon''\<rparr>, CmdNil)
   \<and> main interactive (Inr unreachableRuntime) demoSprintf1 rev None =
        \<lparr>printed = [], exitStatus = 0\<rparr>"
  by (simp add: unreachableRuntime_def refreshContainersWithStats_def
      ListContainersWithStats_def Update_errMsg_def main_def interactive_def)

end
